theory Spec2Isabelle
  imports Main "HOL-Library.Sublist"
begin

section \<open>The VoiceText relay of the AwesomeTTS website (\<^verbatim>\<open>src/relays/__init__.py\<close>)\<close>

text \<open>
  The module holds one WSGI callable, \<^verbatim>\<open>voicetext(environ, start_response)\<close>, and the
  process-wide rate-limiting state \<^verbatim>\<open>_limit_levels\<close>. The handler is modelled as a function
  of the WSGI environment, of what the upstream service does when it is called, of the
  reading of the clock (\<^verbatim>\<open>int(_time())\<close>) and of the rate-limiting state; it returns the
  response handed to \<^verbatim>\<open>start_response\<close> together with the returned body, the log
  records and upstream calls it made, and the rate-limiting state it leaves behind.
  Python 2 strings are byte strings, here \<^typ>\<open>string\<close>; Python integers are \<^typ>\<open>int\<close>.
  A leading underscore of a Python name is dropped, since an Isabelle name cannot start
  with one.
\<close>

subsection \<open>Constants (lines 43--68)\<close>

definition API_VOICETEXT_AUTH :: "(string \<times> string) list" where
  "API_VOICETEXT_AUTH = [(''Authorization'', ''{{{voicetext}}}'')]"

definition API_VOICETEXT_ENDPOINT :: string where
  "API_VOICETEXT_ENDPOINT = ''https://api.voicetext.jp/v1/tts''"

definition API_VOICETEXT_TIMEOUT :: int where
  "API_VOICETEXT_TIMEOUT = 10"

definition AWESOMETTS :: string where
  "AWESOMETTS = ''AwesomeTTS/''"

definition CODE_200 :: string where "CODE_200 = ''200 OK''"
definition CODE_400 :: string where "CODE_400 = ''400 Bad Request''"
definition CODE_403 :: string where "CODE_403 = ''403 Forbidden''"
definition CODE_405 :: string where "CODE_405 = ''405 Method Not Allowed''"
definition CODE_429 :: string where "CODE_429 = ''429 Too Many Requests''"
definition CODE_502 :: string where "CODE_502 = ''502 Bad Gateway''"
definition CODE_503 :: string where "CODE_503 = ''503 Service Unavailable''"

definition HEADERS_JSON :: "(string \<times> string) list" where
  "HEADERS_JSON = [(''Content-Type'', ''application/json'')]"

text \<open>
  \<^verbatim>\<open>_get_message(msg)\<close> is \<^verbatim>\<open>[json.dumps(dict(message=msg), separators=(',', ':'))]\<close>.
  The module applies it to five literals of letters and blanks only, which JSON writes
  between double quotes as they are; the model covers such texts (no character that JSON
  escapes).
\<close>

definition get_message :: "string \<Rightarrow> string list" where
  \<open>get_message msg = [''{"message":"'' @ msg @ ''"}'']\<close>

definition MSG_CAPACITY :: "string list" where
  "MSG_CAPACITY = get_message ''This service is over capacity''"
definition MSG_DENIED :: "string list" where
  "MSG_DENIED = get_message ''You may not call this endpoint directly''"
definition MSG_TOO_MANY :: "string list" where
  "MSG_TOO_MANY = get_message ''You have made too many calls to the service''"
definition MSG_UNACCEPTABLE :: "string list" where
  "MSG_UNACCEPTABLE = get_message ''Your request is unacceptable''"
definition MSG_UPSTREAM :: "string list" where
  "MSG_UPSTREAM = get_message ''Cannot communicate with upstream service''"

subsection \<open>The rate-limiting state (lines 86--90)\<close>

text \<open>
  The accounting dict of a level maps an address to \<^verbatim>\<open>{'created': ..., 'calls': ...}\<close>.
  A dict is an association list here, so that \<^verbatim>\<open>len(lookup)\<close> is \<^const>\<open>length\<close>;
  a dict has no key twice, which is the predicate \<open>dict_like\<close> below, and every operation
  of the handler keeps it.
\<close>

record info =
  created :: int
  calls :: int

record LimitLevel =
  within :: int
  max_single :: int
  max_total :: int
  lookup :: "(string \<times> info) list"

definition limit_levels :: "LimitLevel list" where
  "limit_levels =
     [\<lparr>within = 60, max_single = 25, max_total = 5, lookup = []\<rparr>,
      \<lparr>within = 86400, max_single = 500, max_total = 100, lookup = []\<rparr>]"

definition dict_like :: "LimitLevel list \<Rightarrow> bool" where
  "dict_like levels = list_all (\<lambda>level. distinct (map fst (lookup level))) levels"

subsection \<open>What the handler is given and what it produces\<close>

type_synonym environ = "string \<rightharpoonup> string"

text \<open>
  What the upstream call does: \<^verbatim>\<open>_url_open\<close> raises (timeout, connection error, an HTTP
  error status), with the text of the exception; or it returns a response object, with
  what \<^verbatim>\<open>getcode()\<close>, \<^verbatim>\<open>info().gettype()\<close> and \<^verbatim>\<open>read()\<close> give, the last one raising
  (\<open>Inl\<close>, with the text of the exception) or returning the body (\<open>Inr\<close>).
\<close>

datatype upstream =
  Raises string
| Responds int string "string + string"

record response =
  status :: string
  headers :: "(string \<times> string) list"
  body :: "string list"

text \<open>
  The effects beside the response: the records written through \<^verbatim>\<open>logging\<close>, with the
  message as formatted, and the call of \<^verbatim>\<open>_url_open\<close> with the endpoint, the posted
  data, the headers of the request and the timeout.
\<close>

datatype event =
  Warn string
| Info string
| Error string
| UrlOpen string string "(string \<times> string) list" int

record outcome =
  reply :: response
  emitted :: "event list"
  levels_after :: "LimitLevel list"

subsection \<open>Formatting of log messages\<close>

fun digits10 :: "nat \<Rightarrow> string" where
  "digits10 n =
     (if n < 10 then [char_of (48 + n)]
      else digits10 (n div 10) @ [char_of (48 + n mod 10)])"

declare digits10.simps [simp del]

definition str_int :: "int \<Rightarrow> string" where
  "str_int i = (if i < 0 then CHR ''-'' # digits10 (nat (- i)) else digits10 (nat i))"

fun join :: "string \<Rightarrow> string list \<Rightarrow> string" where
  "join sep [] = []"
| "join sep [s] = s"
| "join sep (s # t # ss) = s @ sep @ join sep (t # ss)"

subsection \<open>Validation of the request (lines 100--128)\<close>

definition environ_get :: "environ \<Rightarrow> string \<Rightarrow> string \<Rightarrow> string" where
  "environ_get environ key dflt = (case environ key of None \<Rightarrow> dflt | Some v \<Rightarrow> v)"

text \<open>The rough sanity check of the query string, lines 121--125.\<close>

definition query_acceptable :: "string \<Rightarrow> bool" where
  "query_acceptable data =
     (data \<noteq> [] \<and> length data < 1000 \<and> count_list data CHR ''&'' > 4 \<and>
      count_list data CHR ''='' < 8 \<and> sublist ''format='' data \<and>
      \<not> sublist ''format=wav'' data \<and>
      sublist ''pitch='' data \<and> sublist ''speaker='' data \<and> sublist ''speed='' data \<and>
      sublist ''text='' data \<and> sublist ''volume='' data)"

definition refuse :: "string \<Rightarrow> string list \<Rightarrow> string \<Rightarrow> LimitLevel list \<Rightarrow> outcome" where
  "refuse code msg warning levels =
     \<lparr>reply = \<lparr>status = code, headers = HEADERS_JSON, body = msg\<rparr>,
      emitted = [Warn warning], levels_after = levels\<rparr>"

subsection \<open>Rate limiting (lines 131--177)\<close>

text \<open>Removal of the expired entries, lines 135--140.\<close>

definition expire_lookup :: "int \<Rightarrow> (string \<times> info) list \<Rightarrow> (string \<times> info) list" where
  "expire_lookup expired lk = filter (\<lambda>(addr, entry). \<not> created entry < expired) lk"

definition expire_level :: "int \<Rightarrow> LimitLevel \<Rightarrow> LimitLevel" where
  "expire_level now level =
     level\<lparr>lookup := expire_lookup (now - within level) (lookup level)\<rparr>"

definition expire_levels :: "int \<Rightarrow> LimitLevel list \<Rightarrow> LimitLevel list" where
  "expire_levels now levels = map (expire_level now) levels"

text \<open>
  The check of the maximum levels, lines 143--161: the first level that refuses the
  caller ends the request, with the values its warning is formatted from.
\<close>

datatype denial =
  OverCapacity int int
| TooManyCalls int string int

definition check_level :: "string \<Rightarrow> LimitLevel \<Rightarrow> denial option" where
  "check_level remote_addr level =
     (case map_of (lookup level) remote_addr of
        None \<Rightarrow>
          (let total_callers = int (length (lookup level)) in
           if total_callers \<ge> max_total level then Some (OverCapacity total_callers (within level))
           else None)
      | Some entry \<Rightarrow>
          (let c = calls entry in
           if c \<ge> max_single level then Some (TooManyCalls c remote_addr (within level))
           else None))"

fun check_levels :: "string \<Rightarrow> LimitLevel list \<Rightarrow> denial option" where
  "check_levels remote_addr [] = None"
| "check_levels remote_addr (level # rest) =
     (case check_level remote_addr level of
        Some d \<Rightarrow> Some d
      | None \<Rightarrow> check_levels remote_addr rest)"

fun denied :: "denial \<Rightarrow> LimitLevel list \<Rightarrow> outcome" where
  "denied (OverCapacity total_callers w) levels =
     refuse CODE_503 MSG_CAPACITY
       (''Relay denied -- already have '' @ str_int total_callers @
        '' total callers within the last '' @ str_int w @ '' seconds'') levels"
| "denied (TooManyCalls c remote_addr w) levels =
     refuse CODE_429 MSG_TOO_MANY
       (''Relay denied -- already had '' @ str_int c @ '' individual calls from '' @
        remote_addr @ '' within the last '' @ str_int w @ '' seconds'') levels"

text \<open>The update of the call counts, lines 164--176.\<close>

definition bump :: "string \<Rightarrow> (string \<times> info) list \<Rightarrow> (string \<times> info) list" where
  "bump remote_addr lk =
     map (\<lambda>(addr, entry). if addr = remote_addr then (addr, entry\<lparr>calls := calls entry + 1\<rparr>)
                         else (addr, entry)) lk"

definition commit_level :: "string \<Rightarrow> int \<Rightarrow> LimitLevel \<Rightarrow> LimitLevel" where
  "commit_level remote_addr now level =
     (case map_of (lookup level) remote_addr of
        None \<Rightarrow> level\<lparr>lookup := lookup level @ [(remote_addr, \<lparr>created = now, calls = 1\<rparr>)]\<rparr>
      | Some entry \<Rightarrow> level\<lparr>lookup := bump remote_addr (lookup level)\<rparr>)"

definition commit_levels :: "string \<Rightarrow> int \<Rightarrow> LimitLevel list \<Rightarrow> LimitLevel list" where
  "commit_levels remote_addr now levels = map (commit_level remote_addr now) levels"

text \<open>The summary of a level, formatted after its update (lines 173--176).\<close>

definition summary :: "string \<Rightarrow> LimitLevel \<Rightarrow> string" where
  "summary remote_addr level =
     str_int (within level) @ ''-second window has '' @
     str_int (case map_of (lookup level) remote_addr of None \<Rightarrow> 0 | Some entry \<Rightarrow> calls entry) @
     ''/'' @ str_int (max_single level) @ '' individual calls for '' @ remote_addr @
     '' and '' @ str_int (int (length (lookup level))) @ ''/'' @
     str_int (max_total level) @ '' total unique callers''"

subsection \<open>The upstream call (lines 179--200)\<close>

definition upstream_failed :: "string \<Rightarrow> response \<times> event list" where
  "upstream_failed detail =
     (\<lparr>status = CODE_502, headers = HEADERS_JSON, body = MSG_UPSTREAM\<rparr>,
      [Error (''Relay failed -- '' @ detail)])"

definition relay :: "upstream \<Rightarrow> response \<times> event list" where
  "relay up =
     (case up of
        Raises detail \<Rightarrow> upstream_failed detail
      | Responds code mime content \<Rightarrow>
          if code \<noteq> 200 then upstream_failed ''non-200 status code from upstream service''
          else if \<not> prefix ''audio/'' mime
          then upstream_failed ''non-audio format from upstream service''
          else (case content of
                  Inl detail \<Rightarrow> upstream_failed detail
                | Inr payload \<Rightarrow>
                    (\<lparr>status = CODE_200, headers = [(''Content-Type'', mime)],
                      body = [payload]\<rparr>, [])))"

subsection \<open>The handler (lines 94--206)\<close>

definition voicetext :: "environ \<Rightarrow> upstream \<Rightarrow> int \<Rightarrow> LimitLevel list \<Rightarrow> outcome" where
  "voicetext environ up now levels =
     (let remote_addr = environ_get environ ''REMOTE_ADDR'' [] in
      if remote_addr = []
      then refuse CODE_403 MSG_DENIED ''Relay denied -- no remote IP address'' levels
      else if \<not> prefix AWESOMETTS (environ_get environ ''HTTP_USER_AGENT'' [])
      then refuse CODE_403 MSG_DENIED ''Relay denied -- unauthorized user agent'' levels
      else if environ ''REQUEST_METHOD'' \<noteq> Some ''GET''
      then refuse CODE_405 MSG_UNACCEPTABLE
             ''Relay denied -- unacceptable request method'' levels
      else
        case environ ''QUERY_STRING'' of
          None \<Rightarrow>
            refuse CODE_400 MSG_UNACCEPTABLE
              ''Relay denied -- unacceptable query string'' levels
        | Some data \<Rightarrow>
            if \<not> query_acceptable data
            then refuse CODE_400 MSG_UNACCEPTABLE
                   ''Relay denied -- unacceptable query string'' levels
            else
              let swept = expire_levels now levels in
              case check_levels remote_addr swept of
                Some d \<Rightarrow> denied d swept
              | None \<Rightarrow>
                  let counted = commit_levels remote_addr now swept;
                      accepted = Info (''Relay accepted -- '' @
                                       join ''; '' (map (summary remote_addr) counted));
                      call = UrlOpen API_VOICETEXT_ENDPOINT data
                               API_VOICETEXT_AUTH API_VOICETEXT_TIMEOUT;
                      (answer, failure) = relay up
                  in \<lparr>reply = answer, emitted = accepted # call # failure,
                      levels_after = counted\<rparr>)"

subsection \<open>Requests served one after another\<close>

text \<open>
  The state lives as long as the process. A request is given by its environment, by what
  the upstream service does for it and by the clock reading it takes; the process serves
  requests one after another on the state the one before has left.
\<close>

type_synonym request = "environ \<times> upstream \<times> int"

fun serve :: "request list \<Rightarrow> LimitLevel list \<Rightarrow> LimitLevel list" where
  "serve [] levels = levels"
| "serve ((environ, up, now) # rest) levels =
     serve rest (levels_after (voicetext environ up now levels))"

subsection \<open>Vocabulary of the properties\<close>

text \<open>The address the accounting is keyed by (line 100).\<close>

definition caller :: "environ \<Rightarrow> string" where
  "caller environ = environ_get environ ''REMOTE_ADDR'' []"

text \<open>The request gets past the checks of lines 101--114 (address, user agent, method).\<close>

definition identified :: "environ \<Rightarrow> bool" where
  "identified environ =
     (caller environ \<noteq> [] \<and>
      prefix AWESOMETTS (environ_get environ ''HTTP_USER_AGENT'' []) \<and>
      environ ''REQUEST_METHOD'' = Some ''GET'')"

text \<open>The request gets past all of the validation, lines 101--128.\<close>

definition validated :: "environ \<Rightarrow> bool" where
  "validated environ =
     (identified environ \<and>
      (case environ ''QUERY_STRING'' of None \<Rightarrow> False | Some data \<Rightarrow> query_acceptable data))"

text \<open>The responses that refuse or fail a request.\<close>

definition over_capacity :: response where
  "over_capacity = \<lparr>status = CODE_503, headers = HEADERS_JSON, body = MSG_CAPACITY\<rparr>"

definition too_many_calls :: response where
  "too_many_calls = \<lparr>status = CODE_429, headers = HEADERS_JSON, body = MSG_TOO_MANY\<rparr>"

definition upstream_unavailable :: response where
  "upstream_unavailable = \<lparr>status = CODE_502, headers = HEADERS_JSON, body = MSG_UPSTREAM\<rparr>"

definition forbidden :: response where
  "forbidden = \<lparr>status = CODE_403, headers = HEADERS_JSON, body = MSG_DENIED\<rparr>"

definition method_not_allowed :: response where
  "method_not_allowed = \<lparr>status = CODE_405, headers = HEADERS_JSON, body = MSG_UNACCEPTABLE\<rparr>"

definition unacceptable :: response where
  "unacceptable = \<lparr>status = CODE_400, headers = HEADERS_JSON, body = MSG_UNACCEPTABLE\<rparr>"

text \<open>The upstream call fails: any of the ways lines 180--196 end in the handler's \<^verbatim>\<open>except\<close>.\<close>

fun upstream_fails :: "upstream \<Rightarrow> bool" where
  "upstream_fails (Raises detail) = True"
| "upstream_fails (Responds code mime content) =
     (code \<noteq> 200 \<or> \<not> prefix ''audio/'' mime \<or> isl content)"

text \<open>The text of the exception the handler catches then.\<close>

fun failure_detail :: "upstream \<Rightarrow> string" where
  "failure_detail (Raises detail) = detail"
| "failure_detail (Responds code mime content) =
     (if code \<noteq> 200 then ''non-200 status code from upstream service''
      else if \<not> prefix ''audio/'' mime then ''non-audio format from upstream service''
      else (case content of Inl detail \<Rightarrow> detail | Inr payload \<Rightarrow> []))"

fun is_UrlOpen :: "event \<Rightarrow> bool" where
  "is_UrlOpen (UrlOpen endpoint data hdrs tmo) = True"
| "is_UrlOpen e = False"

text \<open>No level holds more entries than its cap of callers.\<close>

definition within_caps :: "LimitLevel list \<Rightarrow> bool" where
  "within_caps levels = (\<forall>level \<in> set levels. int (length (lookup level)) \<le> max_total level)"

text \<open>
  The reading of the specification to compare the check with: the query string, cut at
  \<^verbatim>\<open>&\<close> as \<^verbatim>\<open>data.split('&')\<close> does, has a parameter \<^verbatim>\<open>format=\<close> whose value is not
  \<^verbatim>\<open>wav\<close>.
\<close>

fun split_on :: "char \<Rightarrow> string \<Rightarrow> string list" where
  "split_on sep [] = [[]]"
| "split_on sep (c # cs) =
     (if c = sep then [] # split_on sep cs
      else (case split_on sep cs of
              [] \<Rightarrow> [[c]]
            | part # parts \<Rightarrow> (c # part) # parts))"

definition format_other_than_wav :: "string \<Rightarrow> bool" where
  "format_other_than_wav data =
     list_ex (\<lambda>param. prefix ''format='' param \<and> drop 7 param \<noteq> ''wav'')
       (split_on CHR ''&'' data)"

text \<open>The checks of lines 121--125 other than the two on \<^verbatim>\<open>format=\<close>.\<close>

definition other_checks :: "string \<Rightarrow> bool" where
  "other_checks data =
     (data \<noteq> [] \<and> length data < 1000 \<and> count_list data CHR ''&'' > 4 \<and>
      count_list data CHR ''='' < 8 \<and>
      sublist ''pitch='' data \<and> sublist ''speaker='' data \<and> sublist ''speed='' data \<and>
      sublist ''text='' data \<and> sublist ''volume='' data)"

text \<open>
  An admission attempt of an address: a request from it that gets past the validation;
  and the number of such attempts among the first \<open>k\<close> requests of a sequence.
\<close>

definition attempt_of :: "string \<Rightarrow> request \<Rightarrow> bool" where
  "attempt_of addr r = (case r of (environ, up, now) \<Rightarrow> validated environ \<and> caller environ = addr)"

definition attempts_before :: "string \<Rightarrow> request list \<Rightarrow> nat \<Rightarrow> nat" where
  "attempts_before addr reqs k = length (filter (attempt_of addr) (take k reqs))"

subsection \<open>Sample requests and states\<close>

text \<open>An environment with the four keys the handler reads.\<close>

definition request_env :: "string \<Rightarrow> string \<Rightarrow> string \<Rightarrow> string \<Rightarrow> environ" where
  "request_env addr agent method query =
     [''REMOTE_ADDR'' \<mapsto> addr, ''HTTP_USER_AGENT'' \<mapsto> agent,
      ''REQUEST_METHOD'' \<mapsto> method, ''QUERY_STRING'' \<mapsto> query]"

definition sample_query :: string where
  "sample_query = ''format=ogg&pitch=100&speaker=haruka&speed=100&text=hello&volume=100''"

text \<open>A request of the add-on from the given address.\<close>

definition addon_request :: "string \<Rightarrow> environ" where
  "addon_request addr = request_env addr ''AwesomeTTS/1.0'' ''GET'' sample_query"

text \<open>
  A state of the two configured levels in which the first level still has room for
  \<^verbatim>\<open>192.0.2.7\<close> and the second has counted 500 calls of it.
\<close>

definition busy_levels :: "LimitLevel list" where
  "busy_levels =
     [\<lparr>within = 60, max_single = 25, max_total = 5,
        lookup = [(''192.0.2.7'', \<lparr>created = 1000, calls = 3\<rparr>),
                  (''192.0.2.9'', \<lparr>created = 900, calls = 2\<rparr>)]\<rparr>,
      \<lparr>within = 86400, max_single = 500, max_total = 100,
        lookup = [(''192.0.2.7'', \<lparr>created = 500, calls = 500\<rparr>),
                  (''192.0.2.9'', \<lparr>created = 900, calls = 2\<rparr>)]\<rparr>]"

text \<open>
  Seven requests within a minute, from six addresses: the sixth address arrives when the
  first level holds five callers.
\<close>

definition six_callers :: "request list" where
  "six_callers =
     [(addon_request ''192.0.2.1'', Raises [], 100),
      (addon_request ''192.0.2.2'', Raises [], 101),
      (addon_request ''192.0.2.3'', Raises [], 102),
      (addon_request ''192.0.2.4'', Raises [], 103),
      (addon_request ''192.0.2.1'', Raises [], 104),
      (addon_request ''192.0.2.5'', Raises [], 105),
      (addon_request ''192.0.2.6'', Raises [], 106)]"

text \<open>A query string that asks for the format \<^verbatim>\<open>wave\<close>.\<close>

definition wave_query :: string where
  "wave_query = ''format=wave&pitch=100&speaker=haruka&speed=100&text=hello&volume=100''"



text \<open>
  A day on which the second level fills up. The address \<^verbatim>\<open>192.0.2.7\<close> calls at the
  clock reading 0; 99 other addresses, \<^verbatim>\<open>198.51.100.1\<close> to \<^verbatim>\<open>198.51.100.99\<close>, call one
  after another, 100 seconds apart; \<^verbatim>\<open>192.0.2.7\<close> comes back at 86400 and makes 25
  calls; \<^verbatim>\<open>192.0.2.8\<close> calls at 86401.
\<close>

definition peer :: "nat \<Rightarrow> string" where
  "peer k = ''198.51.100.'' @ str_int (int k)"

text \<open>The number a decimal numeral stands for, to tell the sample addresses apart.\<close>

definition decimal :: "string \<Rightarrow> nat" where
  "decimal s = foldl (\<lambda>n c. 10 * n + (of_char c - 48)) 0 s"

definition crowd :: "nat \<Rightarrow> request list" where
  "crowd n = map (\<lambda>k. (addon_request (peer k), Raises [], 100 * int k)) [1..<Suc n]"

definition crowded_day :: "request list" where
  "crowded_day =
     (addon_request ''192.0.2.7'', Raises [], 0) # crowd 99 @
     replicate 25 (addon_request ''192.0.2.7'', Raises [], 86400) @
     [(addon_request ''192.0.2.8'', Raises [], 86401)]"

text \<open>
  The states along that day: the entries of the other addresses; the levels after the
  first \<open>n\<close> of them have called; after the 25 calls at 86400; after the call of
  \<^verbatim>\<open>192.0.2.8\<close>.
\<close>

definition peer_entries :: "nat \<Rightarrow> (string \<times> info) list" where
  "peer_entries n = map (\<lambda>k. (peer k, \<lparr>created = 100 * int k, calls = 1\<rparr>)) [1..<Suc n]"

definition after_crowd :: "nat \<Rightarrow> LimitLevel list" where
  "after_crowd n =
     [\<lparr>within = 60, max_single = 25, max_total = 5,
        lookup = (if n = 0 then [(''192.0.2.7'', \<lparr>created = 0, calls = 1\<rparr>)]
                  else [(peer n, \<lparr>created = 100 * int n, calls = 1\<rparr>)])\<rparr>,
      \<lparr>within = 86400, max_single = 500, max_total = 100,
        lookup = (''192.0.2.7'', \<lparr>created = 0, calls = 1\<rparr>) # peer_entries n\<rparr>]"

definition at_quota :: "LimitLevel list" where
  "at_quota =
     [\<lparr>within = 60, max_single = 25, max_total = 5,
        lookup = [(''192.0.2.7'', \<lparr>created = 86400, calls = 25\<rparr>)]\<rparr>,
      \<lparr>within = 86400, max_single = 500, max_total = 100,
        lookup = (''192.0.2.7'', \<lparr>created = 0, calls = 26\<rparr>) # peer_entries 99\<rparr>]"

definition full_day :: "LimitLevel list" where
  "full_day =
     [\<lparr>within = 60, max_single = 25, max_total = 5,
        lookup = [(''192.0.2.7'', \<lparr>created = 86400, calls = 25\<rparr>),
                  (''192.0.2.8'', \<lparr>created = 86401, calls = 1\<rparr>)]\<rparr>,
      \<lparr>within = 86400, max_single = 500, max_total = 100,
        lookup = peer_entries 99 @ [(''192.0.2.8'', \<lparr>created = 86401, calls = 1\<rparr>)]\<rparr>]"

text \<open>
  A call of \<^verbatim>\<open>192.0.2.7\<close> at the clock reading 1000 that the upstream service answers
  with audio, and the state of the configured levels that has counted \<open>c\<close> such calls.
\<close>

definition one_call :: request where
  "one_call = (addon_request ''192.0.2.7'', Responds 200 ''audio/ogg'' (Inr ''OggS''), 1000)"

definition counted :: "int \<Rightarrow> LimitLevel list" where
  "counted c =
     [\<lparr>within = 60, max_single = 25, max_total = 5,
        lookup = [(''192.0.2.7'', \<lparr>created = 1000, calls = c\<rparr>)]\<rparr>,
      \<lparr>within = 86400, max_single = 500, max_total = 100,
        lookup = [(''192.0.2.7'', \<lparr>created = 1000, calls = c\<rparr>)]\<rparr>]"

text \<open>One level whose cap of calls for each caller is zero.\<close>

definition capless_levels :: "LimitLevel list" where
  "capless_levels = [\<lparr>within = 60, max_single = 0, max_total = 5, lookup = []\<rparr>]"

section \<open>Properties\<close>

subsection \<open>The ways a request ends\<close>

lemma voicetext_not_validated:
  "\<not> validated environ \<Longrightarrow> levels_after (voicetext environ up now levels) = levels"
  by (auto simp: voicetext_def validated_def identified_def caller_def refuse_def Let_def
           split: option.splits)

lemma levels_after_denied [simp]: "levels_after (denied d levels) = levels"
  by (cases d) (simp_all add: refuse_def)

lemma voicetext_denied:
  "validated environ \<Longrightarrow>
   check_levels (caller environ) (expire_levels now levels) = Some d \<Longrightarrow>
   voicetext environ up now levels = denied d (expire_levels now levels)"
  by (auto simp: voicetext_def validated_def identified_def caller_def Let_def
           split: option.splits)

lemma voicetext_admitted:
  "validated environ \<Longrightarrow>
   check_levels (caller environ) (expire_levels now levels) = None \<Longrightarrow>
   reply (voicetext environ up now levels) = fst (relay up) \<and>
   levels_after (voicetext environ up now levels) =
     commit_levels (caller environ) now (expire_levels now levels)"
  by (auto simp: voicetext_def validated_def identified_def caller_def Let_def
           split: option.splits prod.splits)

lemma voicetext_emitted:
  "validated environ \<Longrightarrow>
   check_levels (caller environ) (expire_levels now levels) = None \<Longrightarrow>
   \<exists>msg data. emitted (voicetext environ up now levels) =
      Info msg # UrlOpen API_VOICETEXT_ENDPOINT data API_VOICETEXT_AUTH API_VOICETEXT_TIMEOUT #
      snd (relay up) \<and> environ ''QUERY_STRING'' = Some data"
  by (auto simp: voicetext_def validated_def identified_def caller_def Let_def
           split: option.splits prod.splits)

lemma levels_after_validated:
  "validated environ \<Longrightarrow>
   levels_after (voicetext environ up now levels) =
     (case check_levels (caller environ) (expire_levels now levels) of
        Some d \<Rightarrow> expire_levels now levels
      | None \<Rightarrow> commit_levels (caller environ) now (expire_levels now levels))"
  by (auto simp: voicetext_denied voicetext_admitted split: option.splits)

lemma relay_fails:
  "upstream_fails up \<Longrightarrow>
   relay up = (upstream_unavailable, [Error (''Relay failed -- '' @ failure_detail up)])"
  by (cases up)
     (auto simp: relay_def upstream_failed_def upstream_unavailable_def split: sum.splits)

lemma status_distinct:
  "CODE_200 \<noteq> CODE_429" "CODE_200 \<noteq> CODE_503" "CODE_502 \<noteq> CODE_429"
  "CODE_502 \<noteq> CODE_503" "CODE_400 \<noteq> CODE_429" "CODE_400 \<noteq> CODE_503"
  "CODE_403 \<noteq> CODE_429" "CODE_403 \<noteq> CODE_503" "CODE_405 \<noteq> CODE_429"
  "CODE_405 \<noteq> CODE_503" "CODE_429 \<noteq> CODE_503"
  by (simp_all add: CODE_200_def CODE_400_def CODE_403_def CODE_405_def CODE_429_def
        CODE_502_def CODE_503_def)

lemma status_distinct_rev:
  "CODE_429 \<noteq> CODE_200" "CODE_503 \<noteq> CODE_200" "CODE_429 \<noteq> CODE_502"
  "CODE_503 \<noteq> CODE_502" "CODE_429 \<noteq> CODE_400" "CODE_503 \<noteq> CODE_400"
  "CODE_429 \<noteq> CODE_403" "CODE_503 \<noteq> CODE_403" "CODE_429 \<noteq> CODE_405"
  "CODE_503 \<noteq> CODE_405" "CODE_503 \<noteq> CODE_429"
  by (simp_all add: CODE_200_def CODE_400_def CODE_403_def CODE_405_def CODE_429_def
        CODE_502_def CODE_503_def)

lemma status_relay: "status (fst (relay up)) = CODE_200 \<or> status (fst (relay up)) = CODE_502"
  by (cases up) (auto simp: relay_def upstream_failed_def split: sum.splits)

lemma status_not_validated:
  "\<not> validated environ \<Longrightarrow>
   status (reply (voicetext environ up now levels)) \<in> {CODE_403, CODE_405, CODE_400}"
  by (auto simp: voicetext_def validated_def identified_def caller_def refuse_def Let_def
           split: option.splits)


lemma reply_validated_not_unacceptable:
  assumes "validated environ"
  shows "status (reply (voicetext environ up now levels)) \<noteq> CODE_400"
proof (cases "check_levels (caller environ) (expire_levels now levels)")
  case None
  from voicetext_admitted [OF assms None, of up] status_relay [of up] show ?thesis
    by (auto simp: CODE_200_def CODE_502_def CODE_400_def)
next
  case (Some d)
  from voicetext_denied [OF assms Some, of up] show ?thesis
    by (cases d) (simp_all add: refuse_def CODE_503_def CODE_429_def CODE_400_def)
qed

lemma refused_by_level:
  assumes "status (reply (voicetext environ up now levels)) = CODE_503 \<or>
           status (reply (voicetext environ up now levels)) = CODE_429"
  shows "\<exists>d. validated environ \<and> check_levels (caller environ) (expire_levels now levels) = Some d"
proof (cases "validated environ")
  case False
  from status_not_validated [OF this, of up now levels] assms show ?thesis
    by (auto simp: status_distinct status_distinct_rev)
next
  case True
  show ?thesis
  proof (cases "check_levels (caller environ) (expire_levels now levels)")
    case None
    from voicetext_admitted [OF True None, of up] status_relay [of up] assms show ?thesis
      by (auto simp: status_distinct status_distinct_rev)
  next
    case (Some d)
    with True show ?thesis by simp
  qed
qed

subsection \<open>The phases of the rate limiting\<close>

lemma set_expire_lookup:
  "set (expire_lookup expired lk) = {(addr, entry). (addr, entry) \<in> set lk \<and> \<not> created entry < expired}"
  by (auto simp: expire_lookup_def)

lemma expire_level_fields [simp]:
  "within (expire_level now level) = within level"
  "max_single (expire_level now level) = max_single level"
  "max_total (expire_level now level) = max_total level"
  "lookup (expire_level now level) = expire_lookup (now - within level) (lookup level)"
  by (simp_all add: expire_level_def)

lemma length_expire_levels [simp]: "length (expire_levels now levels) = length levels"
  by (simp add: expire_levels_def)

lemma nth_expire_levels [simp]:
  "i < length levels \<Longrightarrow> expire_levels now levels ! i = expire_level now (levels ! i)"
  by (simp add: expire_levels_def)

lemma length_expire_lookup: "length (expire_lookup expired lk) \<le> length lk"
  by (simp add: expire_lookup_def)

lemma map_of_expire_lookup_kept:
  "map_of lk addr = Some entry \<Longrightarrow> \<not> created entry < expired \<Longrightarrow>
   map_of (expire_lookup expired lk) addr = Some entry"
  by (induction lk) (auto simp: expire_lookup_def)

lemma distinct_expire_lookup:
  "distinct (map fst lk) \<Longrightarrow> distinct (map fst (expire_lookup expired lk))"
  by (simp add: expire_lookup_def distinct_map_filter)

lemma expire_lookup_bounded:
  "int (length lk) \<le> cap \<Longrightarrow> int (length (expire_lookup expired lk)) \<le> cap"
  using length_expire_lookup [of expired lk] by simp

lemma length_bump [simp]: "length (bump addr lk) = length lk"
  by (simp add: bump_def)

lemma map_fst_bump [simp]: "map fst (bump addr lk) = map fst lk"
  by (induction lk) (auto simp: bump_def)

lemma map_of_bump:
  "map_of (bump addr lk) other =
     (if other = addr then map_option (\<lambda>entry. entry\<lparr>calls := calls entry + 1\<rparr>) (map_of lk addr)
      else map_of lk other)"
  by (induction lk) (auto simp: bump_def)


lemma commit_level_fields [simp]:
  "within (commit_level addr now level) = within level"
  "max_single (commit_level addr now level) = max_single level"
  "max_total (commit_level addr now level) = max_total level"
  by (simp_all add: commit_level_def split: option.splits)

lemma length_commit_levels [simp]: "length (commit_levels addr now levels) = length levels"
  by (simp add: commit_levels_def)

lemma nth_commit_levels [simp]:
  "i < length levels \<Longrightarrow> commit_levels addr now levels ! i = commit_level addr now (levels ! i)"
  by (simp add: commit_levels_def)




lemma map_of_commit_level_other:
  "other \<noteq> addr \<Longrightarrow>
   map_of (lookup (commit_level addr now level)) other = map_of (lookup level) other"
  by (auto simp: commit_level_def map_of_bump map_add_def split: option.splits)

lemma map_of_commit_level_known:
  "map_of (lookup level) addr = Some entry \<Longrightarrow>
   map_of (lookup (commit_level addr now level)) addr = Some (entry\<lparr>calls := calls entry + 1\<rparr>)"
  by (simp add: commit_level_def map_of_bump)

lemma map_of_commit_level_new:
  "map_of (lookup level) addr = None \<Longrightarrow>
   map_of (lookup (commit_level addr now level)) addr = Some \<lparr>created = now, calls = 1\<rparr>"
  by (simp add: commit_level_def map_add_def)

lemma commit_level_dict:
  "distinct (map fst (lookup level)) \<Longrightarrow>
   distinct (map fst (lookup (commit_level addr now level)))"
  by (auto simp: commit_level_def map_of_eq_None_iff split: option.splits)

lemma check_levels_None:
  "check_levels addr levels = None \<longleftrightarrow> (\<forall>level \<in> set levels. check_level addr level = None)"
  by (induction levels) (auto split: option.splits)


lemma check_level_None_room:
  "check_level addr level = None \<Longrightarrow> map_of (lookup level) addr = None \<Longrightarrow>
   int (length (lookup level)) < max_total level"
  by (auto simp: check_level_def Let_def split: if_splits)


lemma check_levels_single:
  assumes "i < length levels"
    and "\<forall>j < length levels. j \<noteq> i \<longrightarrow> check_level addr (levels ! j) = None"
  shows "check_levels addr levels = check_level addr (levels ! i)"
  using assms
proof (induction levels arbitrary: i)
  case Nil
  then show ?case by simp
next
  case (Cons level rest)
  show ?case
  proof (cases i)
    case 0
    have "\<forall>l \<in> set rest. check_level addr l = None"
    proof
      fix l assume "l \<in> set rest"
      then obtain j where "j < length rest" "rest ! j = l"
        by (auto simp: in_set_conv_nth)
      with Cons.prems(2) [rule_format, of "Suc j"] 0 show "check_level addr l = None"
        by simp
    qed
    then have "check_levels addr rest = None"
      by (simp add: check_levels_None)
    with 0 show ?thesis
      by (simp split: option.splits)
  next
    case (Suc k)
    with Cons.prems have "k < length rest"
      and "\<forall>j < length rest. j \<noteq> k \<longrightarrow> check_level addr (rest ! j) = None"
      by auto
    then have "check_levels addr rest = check_level addr (rest ! k)"
      by (rule Cons.IH)
    moreover from Cons.prems(2) [rule_format, of 0] Suc have "check_level addr level = None"
      by simp
    ultimately show ?thesis
      using Suc by simp
  qed
qed

text \<open>
  The number of entries of a level after its update: one more only for a caller that the
  check found absent, with room left.
\<close>

lemma commit_level_bounded:
  assumes "check_level addr level = None"
    and "int (length (lookup level)) \<le> max_total level"
  shows "int (length (lookup (commit_level addr now level))) \<le> max_total level"
proof (cases "map_of (lookup level) addr")
  case None
  with check_level_None_room [OF assms(1)] show ?thesis
    by (simp add: commit_level_def)
next
  case (Some entry)
  with assms(2) show ?thesis
    by (simp add: commit_level_def)
qed

lemmas limiter_defs =
  expire_levels_def expire_level_def expire_lookup_def check_level_def commit_levels_def
  commit_level_def bump_def Let_def

text \<open>The level that answers is the first one in the list whose check fails.\<close>

lemma check_levels_first:
  "check_levels addr levels = Some d \<longleftrightarrow>
     (\<exists>j < length levels. check_level addr (levels ! j) = Some d \<and>
        (\<forall>k < j. check_level addr (levels ! k) = None))"
proof (induction levels)
  case Nil
  show ?case by simp
next
  case (Cons level rest)
  show ?case
  proof (cases "check_level addr level")
    case None
    have "(\<exists>j < length (level # rest). check_level addr ((level # rest) ! j) = Some d \<and>
             (\<forall>k < j. check_level addr ((level # rest) ! k) = None)) \<longleftrightarrow>
          (\<exists>j < length rest. check_level addr (rest ! j) = Some d \<and>
             (\<forall>k < j. check_level addr (rest ! k) = None))"
      (is "?L \<longleftrightarrow> ?R")
    proof
      assume ?L
      then obtain j where j: "j < length (level # rest)"
        "check_level addr ((level # rest) ! j) = Some d"
        "\<forall>k < j. check_level addr ((level # rest) ! k) = None"
        by blast
      with None obtain m where m: "j = Suc m"
        by (cases j) auto
      with j have "m < length rest" "check_level addr (rest ! m) = Some d" by auto
      moreover have "\<forall>k < m. check_level addr (rest ! k) = None"
      proof (intro allI impI)
        fix k assume "k < m"
        with j(3) [rule_format, of "Suc k"] m show "check_level addr (rest ! k) = None"
          by simp
      qed
      ultimately show ?R by blast
    next
      assume ?R
      then obtain m where m: "m < length rest" "check_level addr (rest ! m) = Some d"
        "\<forall>k < m. check_level addr (rest ! k) = None"
        by blast
      have "\<forall>k < Suc m. check_level addr ((level # rest) ! k) = None"
      proof (intro allI impI)
        fix k assume "k < Suc m"
        with None m(3) show "check_level addr ((level # rest) ! k) = None"
          by (cases k) auto
      qed
      with m(1,2) show ?L
        by (intro exI [of _ "Suc m"]) simp
    qed
    with None Cons.IH show ?thesis by simp
  next
    case (Some d')
    have "(\<exists>j < length (level # rest). check_level addr ((level # rest) ! j) = Some d \<and>
             (\<forall>k < j. check_level addr ((level # rest) ! k) = None)) \<longleftrightarrow> d' = d"
      (is "?L \<longleftrightarrow> _")
    proof
      assume ?L
      then obtain j where j: "check_level addr ((level # rest) ! j) = Some d"
        "\<forall>k < j. check_level addr ((level # rest) ! k) = None"
        by blast
      show "d' = d"
      proof (cases j)
        case 0
        with j(1) Some show ?thesis by simp
      next
        case (Suc m)
        with j(2) [rule_format, of 0] Some show ?thesis by simp
      qed
    next
      assume "d' = d"
      with Some show ?L
        by (intro exI [of _ 0]) simp
    qed
    with Some show ?thesis by simp
  qed
qed

lemma check_level_too_many:
  "(\<exists>c a w. check_level addr level = Some (TooManyCalls c a w)) \<longleftrightarrow>
   (\<exists>entry. map_of (lookup level) addr = Some entry \<and> max_single level \<le> calls entry)"
  by (cases "map_of (lookup level) addr") (auto simp: check_level_def Let_def)

lemma check_level_too_many_eq:
  "map_of (lookup level) addr = Some entry \<Longrightarrow> max_single level \<le> calls entry \<Longrightarrow>
   check_level addr level = Some (TooManyCalls (calls entry) addr (within level))"
  by (simp add: check_level_def)

lemma reply_denied:
  "reply (denied (OverCapacity n w) levels) = over_capacity"
  "reply (denied (TooManyCalls c a w) levels) = too_many_calls"
  by (simp_all add: refuse_def over_capacity_def too_many_calls_def)

lemma over_capacity_not_too_many: "over_capacity \<noteq> too_many_calls"
  by (simp add: over_capacity_def too_many_calls_def status_distinct_rev)

text \<open>The two refusals of the rate limiting, written out.\<close>

lemma too_many_calls_literal:
  \<open>too_many_calls =
     \<lparr>status = ''429 Too Many Requests'',
        headers = [(''Content-Type'', ''application/json'')],
        body = [''{"message":"You have made too many calls to the service"}'']\<rparr>\<close>
  by (simp add: too_many_calls_def CODE_429_def HEADERS_JSON_def MSG_TOO_MANY_def get_message_def)

lemma over_capacity_literal:
  \<open>over_capacity =
     \<lparr>status = ''503 Service Unavailable'',
        headers = [(''Content-Type'', ''application/json'')],
        body = [''{"message":"This service is over capacity"}'']\<rparr>\<close>
  by (simp add: over_capacity_def CODE_503_def HEADERS_JSON_def MSG_CAPACITY_def get_message_def)

subsection \<open>Sequences of requests\<close>

lemma serve_append: "serve (xs @ ys) levels = serve ys (serve xs levels)"
  by (induction xs levels rule: serve.induct) simp_all

lemma serve_take_Suc:
  assumes "k < length reqs" and "reqs ! k = (environ, up, now)"
  shows "serve (take (Suc k) reqs) levels =
           levels_after (voicetext environ up now (serve (take k reqs) levels))"
  using assms by (simp add: take_Suc_conv_app_nth serve_append)

lemma voicetext_config:
  "length (levels_after (voicetext environ up now levels)) = length levels \<and>
   (\<forall>i < length levels.
      within (levels_after (voicetext environ up now levels) ! i) = within (levels ! i) \<and>
      max_single (levels_after (voicetext environ up now levels) ! i) = max_single (levels ! i) \<and>
      max_total (levels_after (voicetext environ up now levels) ! i) = max_total (levels ! i))"
proof (cases "validated environ")
  case False
  then show ?thesis by (simp add: voicetext_not_validated)
next
  case True
  then show ?thesis
    by (simp add: levels_after_validated split: option.splits)
qed

lemma serve_config:
  "length (serve reqs levels) = length levels \<and>
   (\<forall>i < length levels.
      within (serve reqs levels ! i) = within (levels ! i) \<and>
      max_single (serve reqs levels ! i) = max_single (levels ! i) \<and>
      max_total (serve reqs levels ! i) = max_total (levels ! i))"
proof (induction reqs levels rule: serve.induct)
  case (1 levels)
  show ?case by simp
next
  case (2 environ up now rest levels)
  with voicetext_config [of environ up now levels] show ?case
    by simp
qed

lemma voicetext_within_caps:
  assumes "within_caps levels"
  shows "within_caps (levels_after (voicetext environ up now levels))"
proof (cases "validated environ")
  case False
  with assms show ?thesis by (simp add: voicetext_not_validated)
next
  case True
  have swept: "within_caps (expire_levels now levels)"
    using assms by (auto simp: within_caps_def expire_levels_def intro: expire_lookup_bounded)
  show ?thesis
  proof (cases "check_levels (caller environ) (expire_levels now levels)")
    case (Some d)
    with True swept show ?thesis by (simp add: voicetext_denied)
  next
    case None
    then have "\<forall>level \<in> set (expire_levels now levels). check_level (caller environ) level = None"
      by (simp add: check_levels_None)
    with swept have "within_caps (commit_levels (caller environ) now (expire_levels now levels))"
      by (auto simp: within_caps_def commit_levels_def intro: commit_level_bounded)
    with voicetext_admitted [OF True None, of up] show ?thesis by simp
  qed
qed

lemma serve_within_caps:
  "within_caps levels \<Longrightarrow> within_caps (serve reqs levels)"
  by (induction reqs levels rule: serve.induct) (simp_all add: voicetext_within_caps)

lemma voicetext_dict_like:
  assumes "dict_like levels"
  shows "dict_like (levels_after (voicetext environ up now levels))"
proof (cases "validated environ")
  case False
  with assms show ?thesis by (simp add: voicetext_not_validated)
next
  case True
  have swept: "dict_like (expire_levels now levels)"
    using assms
    by (auto simp: dict_like_def list_all_iff expire_levels_def intro: distinct_expire_lookup)
  then have "dict_like (commit_levels (caller environ) now (expire_levels now levels))"
    by (auto simp: dict_like_def list_all_iff commit_levels_def intro: commit_level_dict)
  with swept True show ?thesis
    by (simp add: levels_after_validated split: option.splits)
qed

lemma serve_dict_like: "dict_like levels \<Longrightarrow> dict_like (serve reqs levels)"
  by (induction reqs levels rule: serve.induct) (simp_all add: voicetext_dict_like)

lemma attempts_before_Suc:
  "k < length reqs \<Longrightarrow>
   attempts_before addr reqs (Suc k) =
     attempts_before addr reqs k + (if attempt_of addr (reqs ! k) then 1 else 0)"
  by (simp add: attempts_before_def take_Suc_conv_app_nth)

text \<open>What one request does to the entry of an address at a level.\<close>

lemma attempt_new:
  assumes "validated environ" and "i < length levels"
    and "map_of (lookup (expire_level now (levels ! i))) (caller environ) = None"
    and "int (length (lookup (expire_level now (levels ! i)))) < max_total (levels ! i)"
    and "\<forall>j < length levels. j \<noteq> i \<longrightarrow>
           check_level (caller environ) (expire_level now (levels ! j)) = None"
  shows "reply (voicetext environ up now levels) = fst (relay up) \<and>
         map_of (lookup (levels_after (voicetext environ up now levels) ! i)) (caller environ) =
           Some \<lparr>created = now, calls = 1\<rparr>"
proof -
  have "check_level (caller environ) (expire_levels now levels ! i) = None"
    using assms(2,3,4) by (simp add: check_level_def del: expire_level_fields) simp
  moreover have "check_levels (caller environ) (expire_levels now levels) =
      check_level (caller environ) (expire_levels now levels ! i)"
    using assms(2,5) by (intro check_levels_single) simp_all
  ultimately have "check_levels (caller environ) (expire_levels now levels) = None"
    by simp
  from voicetext_admitted [OF assms(1) this, of up] assms(2,3) show ?thesis
    by (simp add: map_of_commit_level_new del: expire_level_fields)
qed

lemma attempt_known:
  assumes "validated environ" and "i < length levels"
    and "map_of (lookup (levels ! i)) (caller environ) = Some entry"
    and "\<not> created entry < now - within (levels ! i)"
    and "\<forall>j < length levels. j \<noteq> i \<longrightarrow>
           check_level (caller environ) (expire_level now (levels ! j)) = None"
  shows "if calls entry < max_single (levels ! i)
         then reply (voicetext environ up now levels) = fst (relay up) \<and>
              map_of (lookup (levels_after (voicetext environ up now levels) ! i))
                (caller environ) = Some (entry\<lparr>calls := calls entry + 1\<rparr>)
         else reply (voicetext environ up now levels) = too_many_calls \<and>
              levels_after (voicetext environ up now levels) = expire_levels now levels \<and>
              map_of (lookup (levels_after (voicetext environ up now levels) ! i))
                (caller environ) = Some entry"
proof -
  have kept: "map_of (lookup (expire_level now (levels ! i))) (caller environ) = Some entry"
    using assms(3,4) by (simp add: map_of_expire_lookup_kept)
  have single: "check_levels (caller environ) (expire_levels now levels) =
      check_level (caller environ) (expire_levels now levels ! i)"
    using assms(2,5) by (intro check_levels_single) simp_all
  show ?thesis
  proof (cases "calls entry < max_single (levels ! i)")
    case True
    with kept assms(2) have "check_level (caller environ) (expire_levels now levels ! i) = None"
      by (simp add: check_level_def del: expire_level_fields) simp
    with single have "check_levels (caller environ) (expire_levels now levels) = None"
      by simp
    from voicetext_admitted [OF assms(1) this, of up] assms(2) kept True show ?thesis
      by (simp add: map_of_commit_level_known del: expire_level_fields)
  next
    case False
    with kept assms(2) have "check_level (caller environ) (expire_levels now levels ! i) =
        Some (TooManyCalls (calls entry) (caller environ) (within (levels ! i)))"
      by (simp add: check_level_def del: expire_level_fields) simp
    with single have "check_levels (caller environ) (expire_levels now levels) =
        Some (TooManyCalls (calls entry) (caller environ) (within (levels ! i)))"
      by simp
    from voicetext_denied [OF assms(1) this, of up] assms(2) kept False show ?thesis
      by (simp add: refuse_def too_many_calls_def del: expire_level_fields)
  qed
qed

lemma bystander:
  assumes "i < length levels"
    and "map_of (lookup (levels ! i)) addr = Some entry"
    and "validated environ \<longrightarrow> \<not> created entry < now - within (levels ! i)"
    and "\<not> (validated environ \<and> caller environ = addr)"
  shows "map_of (lookup (levels_after (voicetext environ up now levels) ! i)) addr = Some entry"
proof (cases "validated environ")
  case False
  with assms(2) show ?thesis by (simp add: voicetext_not_validated)
next
  case True
  with assms have kept: "map_of (lookup (expire_level now (levels ! i))) addr = Some entry"
    and other: "addr \<noteq> caller environ"
    by (auto simp: map_of_expire_lookup_kept)
  with True assms(1) show ?thesis
    by (simp add: levels_after_validated map_of_commit_level_other split: option.splits
          del: expire_level_fields)
qed

subsection \<open>The sample requests and states\<close>

lemma request_env_simps [simp]:
  "request_env addr agent method query ''REMOTE_ADDR'' = Some addr"
  "request_env addr agent method query ''HTTP_USER_AGENT'' = Some agent"
  "request_env addr agent method query ''REQUEST_METHOD'' = Some method"
  "request_env addr agent method query ''QUERY_STRING'' = Some query"
  by (simp_all add: request_env_def)

lemma sample_query_acceptable: "query_acceptable sample_query"
  by (simp add: query_acceptable_def sample_query_def sublist_code)

lemma caller_request_env [simp]: "caller (request_env addr agent method query) = addr"
  by (simp add: caller_def environ_get_def)

lemma caller_addon_request [simp]: "caller (addon_request addr) = addr"
  by (simp add: addon_request_def)

lemma validated_addon_request: "addr \<noteq> [] \<Longrightarrow> validated (addon_request addr)"
  by (simp add: validated_def identified_def addon_request_def environ_get_def AWESOMETTS_def
        sample_query_acceptable)

lemma identified_request_env:
  "addr \<noteq> [] \<Longrightarrow> identified (request_env addr ''AwesomeTTS/1.0'' ''GET'' query)"
  by (simp add: identified_def environ_get_def AWESOMETTS_def)

lemma sample_check_passes:
  "check_levels addr (expire_levels now limit_levels) = None"
  by (simp add: limit_levels_def expire_levels_def expire_level_def expire_lookup_def
          check_level_def)

lemma other_checks_wave_query: "other_checks wave_query"
  by (simp add: other_checks_def wave_query_def sublist_code)

lemma serve_six_callers:
  "serve six_callers limit_levels =
     [\<lparr>within = 60, max_single = 25, max_total = 5,
        lookup = [(''192.0.2.1'', \<lparr>created = 100, calls = 2\<rparr>),
                  (''192.0.2.2'', \<lparr>created = 101, calls = 1\<rparr>),
                  (''192.0.2.3'', \<lparr>created = 102, calls = 1\<rparr>),
                  (''192.0.2.4'', \<lparr>created = 103, calls = 1\<rparr>),
                  (''192.0.2.5'', \<lparr>created = 105, calls = 1\<rparr>)]\<rparr>,
      \<lparr>within = 86400, max_single = 500, max_total = 100,
        lookup = [(''192.0.2.1'', \<lparr>created = 100, calls = 2\<rparr>),
                  (''192.0.2.2'', \<lparr>created = 101, calls = 1\<rparr>),
                  (''192.0.2.3'', \<lparr>created = 102, calls = 1\<rparr>),
                  (''192.0.2.4'', \<lparr>created = 103, calls = 1\<rparr>),
                  (''192.0.2.5'', \<lparr>created = 105, calls = 1\<rparr>)]\<rparr>]"
  by (simp add: six_callers_def limit_levels_def levels_after_validated validated_addon_request
        limiter_defs)


lemma replicate_num: "replicate (numeral k) x = x # replicate (pred_numeral k) x"
  by (simp add: numeral_eq_Suc)

lemma serve_calls:
  "serve (replicate (Suc k) one_call) limit_levels = counted (min (int (Suc k)) 25)"
proof (induction k)
  case 0
  show ?case
    by (simp add: one_call_def counted_def limit_levels_def levels_after_validated
          validated_addon_request limiter_defs)
next
  case (Suc k)
  have "replicate (Suc (Suc k)) one_call = replicate (Suc k) one_call @ [one_call]"
    by (simp add: replicate_append_same)
  then have "serve (replicate (Suc (Suc k)) one_call) limit_levels =
      serve [one_call] (serve (replicate (Suc k) one_call) limit_levels)"
    by (simp only: serve_append)
  also have "\<dots> = serve [one_call] (counted (min (int (Suc k)) 25))"
    by (simp only: Suc.IH)
  also have "\<dots> = counted (min (int (Suc (Suc k))) 25)"
    by (simp add: one_call_def counted_def levels_after_validated validated_addon_request
          limiter_defs min_def)
  finally show ?case .
qed

lemma attempt_one_call: "attempt_of ''192.0.2.7'' one_call"
  by (simp add: attempt_of_def one_call_def validated_addon_request)

lemma attempts_before_calls:
  "k \<le> n \<Longrightarrow> attempts_before ''192.0.2.7'' (replicate n one_call) k = k"
  by (simp add: attempts_before_def attempt_one_call min_def)

lemma decimal_digits10: "decimal (digits10 n) = n"
proof (induction n rule: digits10.induct)
  case (1 n)
  show ?case
  proof (cases "n < 10")
    case True
    then show ?thesis
      by (subst digits10.simps) (simp add: decimal_def)
  next
    case False
    have "n mod 10 < 10" by simp
    then have "of_char (char_of (48 + n mod 10)) = 48 + n mod 10"
      by (simp add: of_char_of)
    with 1 False show ?thesis
      by (subst digits10.simps) (simp add: decimal_def)
  qed
qed

lemma peer_eq [simp]: "peer j = peer k \<longleftrightarrow> j = k"
proof
  assume "peer j = peer k"
  then have "decimal (digits10 j) = decimal (digits10 k)"
    by (simp add: peer_def str_int_def)
  then show "j = k" by (simp add: decimal_digits10)
qed simp

lemma peer_other [simp]:
  "peer k \<noteq> ''192.0.2.7''" "peer k \<noteq> ''192.0.2.8''" "peer k \<noteq> ''192.0.2.9''"
  "peer k \<noteq> []"
  "''192.0.2.7'' \<noteq> peer k" "''192.0.2.8'' \<noteq> peer k" "''192.0.2.9'' \<noteq> peer k"
  by (simp_all add: peer_def)

lemma peer_entries_Suc:
  "peer_entries (Suc n) = peer_entries n @ [(peer (Suc n), \<lparr>created = 100 * int (Suc n), calls = 1\<rparr>)]"
  by (simp add: peer_entries_def)

lemma length_peer_entries [simp]: "length (peer_entries n) = n"
  by (simp add: peer_entries_def)

lemma peer_entries_kept:
  "expired \<le> 100 \<Longrightarrow>
   filter (\<lambda>(addr, entry). \<not> created entry < expired) (peer_entries n) = peer_entries n"
  by (auto simp: peer_entries_def filter_map filter_id_conv)

lemma map_of_peer_entries_None:
  "(\<forall>k. addr \<noteq> peer k) \<or> (\<exists>k. k > n \<and> addr = peer k) \<Longrightarrow>
   map_of (peer_entries n) addr = None"
  by (auto simp: peer_entries_def map_of_eq_None_iff image_iff)

lemma peer_entries_untouched:
  "\<forall>k. addr \<noteq> peer k \<Longrightarrow>
   map (\<lambda>(a, entry). if a = addr then (a, entry\<lparr>calls := calls entry + 1\<rparr>) else (a, entry))
     (peer_entries n) = peer_entries n"
  by (auto simp: peer_entries_def)

lemma crowd_step:
  assumes "n < 99"
  shows "levels_after (voicetext (addon_request (peer (Suc n))) up (100 * int (Suc n))
           (after_crowd n)) = after_crowd (Suc n)"
proof -
  have "map_of (peer_entries n) (peer (Suc n)) = None"
    by (rule map_of_peer_entries_None) auto
  with assms show ?thesis
    by (simp add: after_crowd_def levels_after_validated validated_addon_request limiter_defs
          peer_entries_kept peer_entries_Suc)
qed

lemma crowd_Suc:
  "crowd (Suc n) = crowd n @ [(addon_request (peer (Suc n)), Raises [], 100 * int (Suc n))]"
  by (simp add: crowd_def)

lemma serve_crowd: "n \<le> 99 \<Longrightarrow> serve (crowd n) (after_crowd 0) = after_crowd n"
proof (induction n)
  case 0
  show ?case by (simp add: crowd_def)
next
  case (Suc n)
  then have "serve (crowd n) (after_crowd 0) = after_crowd n" and "n < 99"
    by simp_all
  then show ?case
    by (simp only: crowd_Suc serve_append serve.simps crowd_step)
qed

lemma first_call:
  "levels_after (voicetext (addon_request ''192.0.2.7'') up 0 limit_levels) = after_crowd 0"
  by (simp add: after_crowd_def limit_levels_def levels_after_validated validated_addon_request
        limiter_defs peer_entries_def)

lemma burst:
  "serve (replicate 25 (addon_request ''192.0.2.7'', Raises [], 86400)) (after_crowd 99) = at_quota"
  by (simp add: replicate_num after_crowd_def at_quota_def levels_after_validated
        validated_addon_request limiter_defs peer_entries_kept peer_entries_untouched)

lemma newcomer:
  "levels_after (voicetext (addon_request ''192.0.2.8'') up 86401 at_quota) = full_day"
proof -
  have "map_of (peer_entries 99) ''192.0.2.8'' = None"
    by (rule map_of_peer_entries_None) simp
  then show ?thesis
    by (simp add: at_quota_def full_day_def levels_after_validated validated_addon_request
          limiter_defs peer_entries_kept)
qed

lemma serve_crowded_day: "serve crowded_day limit_levels = full_day"
  by (simp add: crowded_day_def serve_append first_call serve_crowd burst newcomer
        )

subsection \<open>The cap of calls of one caller\<close>

text \<open>
  What the attempts of one address within one window of a level lead to, in a sequence of
  requests of any callers that starts with the attempt that opens the window.
\<close>

lemma attempts_in_window:
  assumes i: "i < length levels"
    and cap: "1 \<le> max_single (levels ! i)"
    and first: "reqs = (environ0, up0, t0) # rest" "validated environ0" "caller environ0 = addr"
    and fresh: "map_of (lookup (expire_level t0 (levels ! i))) addr = None"
    and room: "int (length (lookup (expire_level t0 (levels ! i)))) < max_total (levels ! i)"
    and window: "\<forall>(environ, up, now) \<in> set rest.
                   validated environ \<longrightarrow> \<not> t0 < now - within (levels ! i)"
    and others: "\<forall>k < length reqs. attempt_of addr (reqs ! k) \<longrightarrow>
                   (\<forall>j < length levels. j \<noteq> i \<longrightarrow>
                      check_level addr
                        (expire_level (snd (snd (reqs ! k))) (serve (take k reqs) levels ! j)) =
                      None)"
  shows "\<forall>k < length reqs. attempt_of addr (reqs ! k) \<longrightarrow>
           (case reqs ! k of (environ, up, now) \<Rightarrow>
              if int (attempts_before addr reqs k) < max_single (levels ! i)
              then reply (voicetext environ up now (serve (take k reqs) levels)) =
                     fst (relay up) \<and>
                   map_of (lookup (serve (take (Suc k) reqs) levels ! i)) addr =
                     Some \<lparr>created = t0, calls = int (attempts_before addr reqs k) + 1\<rparr>
              else reply (voicetext environ up now (serve (take k reqs) levels)) =
                     too_many_calls \<and>
                   serve (take (Suc k) reqs) levels =
                     expire_levels now (serve (take k reqs) levels))"
proof -
  define M where "M = max_single (levels ! i)"
  define S where "S k = serve (take k reqs) levels" for k
  define N where "N k = attempts_before addr reqs k" for k
  define Concl where "Concl k \<longleftrightarrow>
    (attempt_of addr (reqs ! k) \<longrightarrow>
      (case reqs ! k of (environ, up, now) \<Rightarrow>
         if int (N k) < M
         then reply (voicetext environ up now (S k)) = fst (relay up) \<and>
              map_of (lookup (S (Suc k) ! i)) addr = Some \<lparr>created = t0, calls = int (N k) + 1\<rparr>
         else reply (voicetext environ up now (S k)) = too_many_calls \<and>
              S (Suc k) = expire_levels now (S k)))" for k
  define Inv where "Inv k \<longleftrightarrow>
    map_of (lookup (S k ! i)) addr = Some \<lparr>created = t0, calls = min (int (N k)) M\<rparr>" for k
  have config: "length (S k) = length levels" "within (S k ! i) = within (levels ! i)"
    "max_single (S k ! i) = M" "max_total (S k ! i) = max_total (levels ! i)" for k
    using serve_config [of "take k reqs" levels] i by (simp_all add: S_def M_def)
  have step0: "Concl 0 \<and> Inv (Suc 0)"
  proof -
    have S0: "S 0 = levels" by (simp add: S_def)
    have S1: "S (Suc 0) = levels_after (voicetext environ0 up0 t0 levels)"
      by (simp add: S_def first(1))
    have N0: "N 0 = 0" and N1: "N (Suc 0) = 1"
      using first by (simp_all add: N_def attempts_before_def attempt_of_def)
    have "\<forall>j < length levels. j \<noteq> i \<longrightarrow>
        check_level (caller environ0) (expire_level t0 (levels ! j)) = None"
      using others [rule_format, of 0] first by (simp add: attempt_of_def)
    from attempt_new [OF first(2) i _ room this, of up0] fresh first(3)
    have "reply (voicetext environ0 up0 t0 levels) = fst (relay up0) \<and>
        map_of (lookup (levels_after (voicetext environ0 up0 t0 levels) ! i)) addr =
          Some \<lparr>created = t0, calls = 1\<rparr>"
      by simp
    with cap show ?thesis
      by (simp add: Concl_def Inv_def S0 S1 N0 N1 first(1) M_def)
  qed
  have step: "Concl k \<and> Inv (Suc k)" if k: "k < length reqs" "0 < k" and inv: "Inv k" for k
  proof -
    obtain environ up now where r: "reqs ! k = (environ, up, now)"
      by (cases "reqs ! k") auto
    have Suc: "S (Suc k) = levels_after (voicetext environ up now (S k))"
      unfolding S_def using k(1) r by (rule serve_take_Suc)
    from k first(1) have "reqs ! k \<in> set rest"
      by (cases k) simp_all
    with window r have live: "validated environ \<longrightarrow> \<not> t0 < now - within (S k ! i)"
      by (auto simp: config)
    from inv have entry: "map_of (lookup (S k ! i)) addr =
        Some \<lparr>created = t0, calls = min (int (N k)) M\<rparr>"
      by (simp add: Inv_def)
    have i': "i < length (S k)"
      using i by (simp add: config)
    show ?thesis
    proof (cases "attempt_of addr (reqs ! k)")
      case False
      with r have "\<not> (validated environ \<and> caller environ = addr)"
        by (simp add: attempt_of_def)
      from bystander [OF i' entry _ this, of now up] live
      have "map_of (lookup (S (Suc k) ! i)) addr =
          Some \<lparr>created = t0, calls = min (int (N k)) M\<rparr>"
        by (simp add: Suc)
      moreover from False k(1) have "N (Suc k) = N k"
        by (simp add: N_def attempts_before_Suc)
      ultimately show ?thesis
        using False by (simp add: Concl_def Inv_def)
    next
      case True
      with r have v: "validated environ" and c: "caller environ = addr"
        by (simp_all add: attempt_of_def)
      from True k(1) have NS: "N (Suc k) = N k + 1"
        by (simp add: N_def attempts_before_Suc)
      have pass: "\<forall>j < length (S k). j \<noteq> i \<longrightarrow>
          check_level (caller environ) (expire_level now (S k ! j)) = None"
        using others [rule_format, OF k(1) True] r c config(1) [of k] by (simp add: S_def)
      have e: "map_of (lookup (S k ! i)) (caller environ) =
          Some \<lparr>created = t0, calls = min (int (N k)) M\<rparr>"
        using entry c by simp
      have l: "\<not> created \<lparr>created = t0, calls = min (int (N k)) M\<rparr> < now - within (S k ! i)"
        using live v by simp
      note known = attempt_known [OF v i' e l pass, of up, unfolded config c, folded Suc]
      show ?thesis
      proof (cases "int (N k) < M")
        case less: True
        then have m: "min (int (N k)) M = int (N k)" by simp
        from known have "reply (voicetext environ up now (S k)) = fst (relay up) \<and>
            map_of (lookup (S (Suc k) ! i)) addr =
              Some \<lparr>created = t0, calls = int (N k) + 1\<rparr>"
          unfolding m using less by simp
        with less show ?thesis
          using True r by (simp add: Concl_def Inv_def NS)
      next
        case more: False
        then have m: "min (int (N k)) M = M" by simp
        from known have "reply (voicetext environ up now (S k)) = too_many_calls \<and>
            S (Suc k) = expire_levels now (S k) \<and>
            map_of (lookup (S (Suc k) ! i)) addr = Some \<lparr>created = t0, calls = M\<rparr>"
          unfolding m by auto
        with more show ?thesis
          using True r by (auto simp: Concl_def Inv_def NS)
      qed
    qed
  qed
  have all: "k < length reqs \<Longrightarrow> Concl k \<and> Inv (Suc k)" for k
  proof (induction k)
    case 0
    show ?case by (rule step0)
  next
    case (Suc k)
    then have "Inv (Suc k)" by simp
    with Suc.prems show ?case
      by (intro step) simp_all
  qed
  show ?thesis
  proof (intro allI impI)
    fix k assume k: "k < length reqs" "attempt_of addr (reqs ! k)"
    obtain environ up now where "reqs ! k = (environ, up, now)"
      by (cases "reqs ! k") auto
    with all [of k] k show "case reqs ! k of (environ, up, now) \<Rightarrow>
              if int (attempts_before addr reqs k) < max_single (levels ! i)
              then reply (voicetext environ up now (serve (take k reqs) levels)) =
                     fst (relay up) \<and>
                   map_of (lookup (serve (take (Suc k) reqs) levels ! i)) addr =
                     Some \<lparr>created = t0, calls = int (attempts_before addr reqs k) + 1\<rparr>
              else reply (voicetext environ up now (serve (take k reqs) levels)) =
                     too_many_calls \<and>
                   serve (take (Suc k) reqs) levels =
                     expire_levels now (serve (take k reqs) levels)"
      by (auto simp: Concl_def S_def N_def M_def split: if_splits)
  qed
qed

text \<open>
  C1, as amended. Take a level \<open>i\<close> with a cap of calls \<open>M\<close> of at least one and a
  sequence of requests, of any callers, that starts with an admission attempt of the
  address \<open>addr\<close> at the time \<open>t0\<close>, when the level, its expired entries removed, has no
  entry for \<open>addr\<close> and room for a new caller: this attempt opens the window. Let no later
  request of the sequence come after the window has run out (no expiry in between), and
  let every level other than \<open>i\<close> pass each of the attempts of \<open>addr\<close>. Then an attempt
  of \<open>addr\<close> that has fewer than \<open>M\<close> attempts before it in the sequence is admitted (the
  response is that of the upstream call) and raises the call count of the entry, created
  at \<open>t0\<close>, to its own number; and an attempt that has \<open>M\<close> or more attempts before it,
  the \<open>(M+1)\<close>-th first of all, is answered with \<^verbatim>\<open>429 Too Many Requests\<close> and the
  too-many-calls message, and leaves the state as the removal of expired entries has left
  it: nothing is counted.
\<close>

theorem per_caller_cap:
  assumes "i < length levels"
    and "1 \<le> max_single (levels ! i)"
    and "reqs = (environ0, up0, t0) # rest" and "validated environ0" and "caller environ0 = addr"
    and "map_of (lookup (expire_level t0 (levels ! i))) addr = None"
    and "int (length (lookup (expire_level t0 (levels ! i)))) < max_total (levels ! i)"
    and "\<forall>(environ, up, now) \<in> set rest.
           validated environ \<longrightarrow> \<not> t0 < now - within (levels ! i)"
    and "\<forall>k < length reqs. attempt_of addr (reqs ! k) \<longrightarrow>
           (\<forall>j < length levels. j \<noteq> i \<longrightarrow>
              check_level addr
                (expire_level (snd (snd (reqs ! k))) (serve (take k reqs) levels ! j)) =
              None)"
  shows \<open>\<forall>k < length reqs. attempt_of addr (reqs ! k) \<longrightarrow>
           (case reqs ! k of (environ, up, now) \<Rightarrow>
              if int (attempts_before addr reqs k) < max_single (levels ! i)
              then reply (voicetext environ up now (serve (take k reqs) levels)) =
                     fst (relay up) \<and>
                   map_of (lookup (serve (take (Suc k) reqs) levels ! i)) addr =
                     Some \<lparr>created = t0, calls = int (attempts_before addr reqs k) + 1\<rparr>
              else reply (voicetext environ up now (serve (take k reqs) levels)) =
                     \<lparr>status = ''429 Too Many Requests'',
                        headers = [(''Content-Type'', ''application/json'')],
                        body = [''{"message":"You have made too many calls to the service"}'']\<rparr> \<and>
                   serve (take (Suc k) reqs) levels =
                     expire_levels now (serve (take k reqs) levels))\<close>
  using attempts_in_window [OF assms] unfolding too_many_calls_literal .

text \<open>
  C1 as stated has no condition on the room of the level itself nor on the cap. After
  the requests of \<open>six_callers\<close>, served from the initial state, the first level holds
  five callers, its cap; the first attempt of \<^verbatim>\<open>192.0.2.9\<close>, which has no entry there and
  which the second level passes, is answered with 503 by the first level itself and
  changes nothing, so that no attempt of that address is admitted while the level stays
  full. And a level whose cap of calls is zero admits the first call of a new caller,
  which the cap is never compared with.
\<close>

theorem first_attempt_without_room:
  \<open>check_level ''192.0.2.9'' (expire_level 107 (serve six_callers limit_levels ! 1)) = None \<and>
   map_of (lookup (expire_level 107 (serve six_callers limit_levels ! 0))) ''192.0.2.9'' = None \<and>
   reply (voicetext (addon_request ''192.0.2.9'') (Responds 200 ''audio/ogg'' (Inr ''OggS'')) 107
            (serve six_callers limit_levels)) =
     \<lparr>status = ''503 Service Unavailable'',
        headers = [(''Content-Type'', ''application/json'')],
        body = [''{"message":"This service is over capacity"}'']\<rparr> \<and>
   levels_after (voicetext (addon_request ''192.0.2.9'')
            (Responds 200 ''audio/ogg'' (Inr ''OggS'')) 107 (serve six_callers limit_levels)) =
     serve six_callers limit_levels \<and>
   max_single (capless_levels ! 0) = 0 \<and>
   reply (voicetext (addon_request ''192.0.2.9'') (Responds 200 ''audio/ogg'' (Inr ''OggS'')) 0
            capless_levels) =
     \<lparr>status = ''200 OK'', headers = [(''Content-Type'', ''audio/ogg'')], body = [''OggS'']\<rparr>\<close>
proof -
  have v: "validated (addon_request ''192.0.2.9'')"
    by (simp add: validated_addon_request)
  have sw: "expire_levels 107 (serve six_callers limit_levels) = serve six_callers limit_levels"
    by (simp add: serve_six_callers limiter_defs)
  have c: "check_levels (caller (addon_request ''192.0.2.9''))
      (expire_levels 107 (serve six_callers limit_levels)) = Some (OverCapacity 5 60)"
    unfolding sw by (simp add: serve_six_callers check_level_def)
  have c0: "check_levels (caller (addon_request ''192.0.2.9'')) (expire_levels 0 capless_levels) = None"
    by (simp add: capless_levels_def limiter_defs)
  have "reply (voicetext (addon_request ''192.0.2.9'') (Responds 200 ''audio/ogg'' (Inr ''OggS'')) 107
            (serve six_callers limit_levels)) = over_capacity"
    unfolding voicetext_denied [OF v c] by (rule reply_denied)
  moreover have "levels_after (voicetext (addon_request ''192.0.2.9'')
            (Responds 200 ''audio/ogg'' (Inr ''OggS'')) 107 (serve six_callers limit_levels)) =
     serve six_callers limit_levels"
    unfolding voicetext_denied [OF v c] sw by (rule levels_after_denied)
  moreover have "check_level ''192.0.2.9'' (expire_level 107 (serve six_callers limit_levels ! 1)) = None"
    "map_of (lookup (expire_level 107 (serve six_callers limit_levels ! 0))) ''192.0.2.9'' = None"
    by (simp_all add: serve_six_callers expire_lookup_def check_level_def)
  moreover have "reply (voicetext (addon_request ''192.0.2.9'') (Responds 200 ''audio/ogg'' (Inr ''OggS'')) 0
            capless_levels) =
     \<lparr>status = ''200 OK'', headers = [(''Content-Type'', ''audio/ogg'')], body = [''OggS'']\<rparr>"
    using voicetext_admitted [OF v c0, of "Responds 200 ''audio/ogg'' (Inr ''OggS'')"]
    by (simp add: relay_def CODE_200_def)
  moreover have "max_single (capless_levels ! 0) = 0"
    by (simp add: capless_levels_def)
  ultimately show ?thesis
    unfolding over_capacity_literal by blast
qed

text \<open>
  With the configured levels and 26 calls of one address within a second: the 25th is
  answered with the audio, the 26th with 429, and the state stays as it was.
\<close>

theorem per_caller_cap_witness:
  \<open>reply (voicetext (addon_request ''192.0.2.7'') (Responds 200 ''audio/ogg'' (Inr ''OggS'')) 1000
      (serve (replicate 24 one_call) limit_levels)) =
     \<lparr>status = ''200 OK'', headers = [(''Content-Type'', ''audio/ogg'')], body = [''OggS'']\<rparr> \<and>
   map_of (lookup (serve (replicate 25 one_call) limit_levels ! 0)) ''192.0.2.7'' =
     Some \<lparr>created = 1000, calls = 25\<rparr> \<and>
   reply (voicetext (addon_request ''192.0.2.7'') (Responds 200 ''audio/ogg'' (Inr ''OggS'')) 1000
      (serve (replicate 25 one_call) limit_levels)) =
     \<lparr>status = ''429 Too Many Requests'',
        headers = [(''Content-Type'', ''application/json'')],
        body = [''{"message":"You have made too many calls to the service"}'']\<rparr> \<and>
   serve (replicate 26 one_call) limit_levels =
     expire_levels 1000 (serve (replicate 25 one_call) limit_levels)\<close>
proof -
  let ?reqs = "replicate 26 one_call"
  have i: "0 < length limit_levels" and cap: "1 \<le> max_single (limit_levels ! 0)"
    by (simp_all add: limit_levels_def)
  have first: "?reqs = (addon_request ''192.0.2.7'', Responds 200 ''audio/ogg'' (Inr ''OggS''), 1000) #
      replicate 25 one_call"
    by (simp add: one_call_def numeral_eq_Suc)
  have v: "validated (addon_request ''192.0.2.7'')" and c: "caller (addon_request ''192.0.2.7'') = ''192.0.2.7''"
    by (simp_all add: validated_addon_request)
  have fresh: "map_of (lookup (expire_level 1000 (limit_levels ! 0))) ''192.0.2.7'' = None"
    and room: "int (length (lookup (expire_level 1000 (limit_levels ! 0)))) <
      max_total (limit_levels ! 0)"
    by (simp_all add: limit_levels_def expire_lookup_def)
  have window: "\<forall>(environ, up, now) \<in> set (replicate 25 one_call).
      validated environ \<longrightarrow> \<not> 1000 < now - within (limit_levels ! 0)"
    by (simp add: one_call_def limit_levels_def)
  have others: "\<forall>k < length ?reqs. attempt_of ''192.0.2.7'' (?reqs ! k) \<longrightarrow>
      (\<forall>j < length limit_levels. j \<noteq> 0 \<longrightarrow>
         check_level ''192.0.2.7''
           (expire_level (snd (snd (?reqs ! k))) (serve (take k ?reqs) limit_levels ! j)) = None)"
  proof (intro allI impI)
    fix k j
    assume k: "k < length ?reqs" and j: "j < length limit_levels" "j \<noteq> 0"
    then have j1: "j = 1" by (simp add: limit_levels_def)
    from k have t: "take k ?reqs = replicate k one_call" by (simp add: min_def)
    from k have n: "?reqs ! k = one_call" by simp
    show "check_level ''192.0.2.7''
           (expire_level (snd (snd (?reqs ! k))) (serve (take k ?reqs) limit_levels ! j)) = None"
    proof (cases k)
      case 0
      with t have t': "take k ?reqs = []" by simp
      show ?thesis
        unfolding t' n j1
        by (simp add: one_call_def limit_levels_def expire_lookup_def check_level_def)
    next
      case (Suc m)
      with t have t': "take k ?reqs = replicate (Suc m) one_call" by simp
      show ?thesis
        unfolding t' n j1 serve_calls
        by (simp add: one_call_def counted_def expire_lookup_def check_level_def min_def)
    qed
  qed
  note inst = per_caller_cap [OF i cap first v c fresh room window others, rule_format]
  have s24: "serve (take 24 ?reqs) limit_levels = serve (replicate 24 one_call) limit_levels"
    and s25: "serve (take 25 ?reqs) limit_levels = serve (replicate 25 one_call) limit_levels"
    and s26: "serve (take 26 ?reqs) limit_levels = serve (replicate 26 one_call) limit_levels"
    by simp_all
  have a: "attempt_of ''192.0.2.7'' (?reqs ! 24)" "attempt_of ''192.0.2.7'' (?reqs ! 25)"
    by (simp_all add: attempt_one_call)
  have n: "attempts_before ''192.0.2.7'' ?reqs 24 = 24" "attempts_before ''192.0.2.7'' ?reqs 25 = 25"
    by (simp_all add: attempts_before_calls)
  have "reply (voicetext (addon_request ''192.0.2.7'') (Responds 200 ''audio/ogg'' (Inr ''OggS'')) 1000
      (serve (take 24 ?reqs) limit_levels)) = fst (relay (Responds 200 ''audio/ogg'' (Inr ''OggS''))) \<and>
     map_of (lookup (serve (take (Suc 24) ?reqs) limit_levels ! 0)) ''192.0.2.7'' =
       Some \<lparr>created = 1000, calls = int 24 + 1\<rparr>"
    using inst [of 24, OF _ a(1)] unfolding n by (simp add: one_call_def limit_levels_def)
  moreover have \<open>reply (voicetext (addon_request ''192.0.2.7'') (Responds 200 ''audio/ogg'' (Inr ''OggS'')) 1000
      (serve (take 25 ?reqs) limit_levels)) =
       \<lparr>status = ''429 Too Many Requests'',
        headers = [(''Content-Type'', ''application/json'')],
        body = [''{"message":"You have made too many calls to the service"}'']\<rparr> \<and>
     serve (take (Suc 25) ?reqs) limit_levels = expire_levels 1000 (serve (take 25 ?reqs) limit_levels)\<close>
    using inst [of 25, OF _ a(2)] unfolding n by (simp add: one_call_def limit_levels_def)
  ultimately show ?thesis
    unfolding s24 s25 by (simp add: relay_def CODE_200_def)
qed

subsection \<open>The cap of callers of a level\<close>

text \<open>
  C2, as amended. Let a level hold, after the removal of its expired entries, as many
  entries as its cap of callers allows (or more), none of them for the caller of a
  validated request. Whatever the call counts of the entries of that level are, the
  request is refused and nothing is counted for it: the state left behind is the state
  after the removal of the expired entries. The response is \<^verbatim>\<open>503 Service Unavailable\<close>
  with the over-capacity message or \<^verbatim>\<open>429 Too Many Requests\<close> with the too-many-calls
  message; it is the latter exactly when a level before it in the list, with all the
  levels before that one passing, holds an entry of the caller whose call count has
  reached that level's cap of calls. So for the first level of the list the response is
  always the 503.
\<close>

theorem full_level_refuses_new_caller:
  assumes "validated environ" and "i < length levels"
    and "map_of (lookup (expire_level now (levels ! i))) (caller environ) = None"
    and "max_total (levels ! i) \<le> int (length (lookup (expire_level now (levels ! i))))"
  shows "levels_after (voicetext environ up now levels) = expire_levels now levels \<and>
         (reply (voicetext environ up now levels) = over_capacity \<or>
          reply (voicetext environ up now levels) = too_many_calls) \<and>
         (reply (voicetext environ up now levels) = too_many_calls \<longleftrightarrow>
            (\<exists>j < i.
               (\<exists>entry. map_of (lookup (expire_level now (levels ! j))) (caller environ) =
                          Some entry \<and> max_single (levels ! j) \<le> calls entry) \<and>
               (\<forall>k < j. check_level (caller environ) (expire_level now (levels ! k)) = None)))"
proof -
  let ?sw = "expire_levels now levels" and ?a = "caller environ"
  have full: "check_level ?a (?sw ! i) =
      Some (OverCapacity (int (length (lookup (expire_level now (levels ! i)))))
              (within (levels ! i)))"
    using assms(2,3,4) by (simp add: check_level_def del: expire_level_fields) simp
  have "check_levels ?a ?sw \<noteq> None"
  proof
    assume "check_levels ?a ?sw = None"
    then have "\<forall>level \<in> set ?sw. check_level ?a level = None"
      by (simp add: check_levels_None)
    moreover from assms(2) have "?sw ! i \<in> set ?sw"
      by (intro nth_mem) simp
    ultimately show False
      using full by simp
  qed
  then obtain d where d: "check_levels ?a ?sw = Some d" by auto
  then obtain j where j: "j < length ?sw" "check_level ?a (?sw ! j) = Some d"
    "\<forall>k < j. check_level ?a (?sw ! k) = None"
    by (auto simp: check_levels_first)
  have ji: "j \<le> i"
  proof (rule ccontr)
    assume "\<not> j \<le> i"
    with j(3) [rule_format, of i] full show False by simp
  qed
  have out: "voicetext environ up now levels = denied d ?sw"
    using assms(1) d by (rule voicetext_denied)
  let ?cond = "\<exists>j < i.
       (\<exists>entry. map_of (lookup (expire_level now (levels ! j))) ?a = Some entry \<and>
                 max_single (levels ! j) \<le> calls entry) \<and>
       (\<forall>k < j. check_level ?a (expire_level now (levels ! k)) = None)"
  have cond: "?cond \<longleftrightarrow> (\<exists>c a w. d = TooManyCalls c a w)"
  proof
    assume ?cond
    then obtain m entry where m: "m < i"
      "map_of (lookup (expire_level now (levels ! m))) ?a = Some entry"
      "max_single (levels ! m) \<le> calls entry"
      "\<forall>k < m. check_level ?a (expire_level now (levels ! k)) = None"
      by blast
    from m(1) assms(2) have ml: "m < length ?sw" by simp
    have "check_level ?a (?sw ! m) =
        Some (TooManyCalls (calls entry) ?a (within (expire_level now (levels ! m))))"
      using m(1,2,3) assms(2) check_level_too_many_eq [of "expire_level now (levels ! m)" ?a entry]
      by simp
    moreover have "\<forall>k < m. check_level ?a (?sw ! k) = None"
      using m(1,4) assms(2) by simp
    ultimately have "check_levels ?a ?sw =
        Some (TooManyCalls (calls entry) ?a (within (expire_level now (levels ! m))))"
      using ml by (subst check_levels_first) blast
    with d show "\<exists>c a w. d = TooManyCalls c a w" by auto
  next
    assume "\<exists>c a w. d = TooManyCalls c a w"
    then obtain c a w where tm: "d = TooManyCalls c a w" by blast
    with j(2) full have "j \<noteq> i" by auto
    with ji have "j < i" by simp
    moreover from tm j(2) \<open>j < i\<close> assms(2)
    have "\<exists>entry. map_of (lookup (expire_level now (levels ! j))) ?a = Some entry \<and>
        max_single (levels ! j) \<le> calls entry"
      using check_level_too_many [of ?a "expire_level now (levels ! j)"] by auto
    moreover from j(3) \<open>j < i\<close> assms(2)
    have "\<forall>k < j. check_level ?a (expire_level now (levels ! k)) = None"
      by simp
    ultimately show ?cond by blast
  qed
  have after: "levels_after (voicetext environ up now levels) = ?sw"
    unfolding out by (rule levels_after_denied)
  show ?thesis
  proof (cases d)
    case (OverCapacity n w)
    have "reply (voicetext environ up now levels) = over_capacity"
      unfolding out OverCapacity by (rule reply_denied)
    moreover from cond OverCapacity have "\<not> ?cond" by simp
    ultimately show ?thesis
      using after over_capacity_not_too_many by simp
  next
    case (TooManyCalls c a w)
    have "reply (voicetext environ up now levels) = too_many_calls"
      unfolding out TooManyCalls by (rule reply_denied)
    moreover from cond TooManyCalls have ?cond by simp
    ultimately show ?thesis
      using after by simp
  qed
qed

text \<open>
  After the requests of \<open>crowded_day\<close> the second level is full: \<^verbatim>\<open>192.0.2.9\<close>, unknown
  to both levels, is answered with the 503; \<^verbatim>\<open>192.0.2.7\<close>, at its cap of calls in the
  first level, with the 429.
\<close>

theorem full_level_refuses_new_caller_witness:
  \<open>length (lookup (serve crowded_day limit_levels ! 1)) = 100 \<and>
   reply (voicetext (addon_request ''192.0.2.9'') (Raises []) 86402
            (serve crowded_day limit_levels)) =
     \<lparr>status = ''503 Service Unavailable'',
        headers = [(''Content-Type'', ''application/json'')],
        body = [''{"message":"This service is over capacity"}'']\<rparr> \<and>
   levels_after (voicetext (addon_request ''192.0.2.9'') (Raises []) 86402
            (serve crowded_day limit_levels)) = serve crowded_day limit_levels \<and>
   reply (voicetext (addon_request ''192.0.2.7'') (Raises []) 86401
            (serve crowded_day limit_levels)) =
     \<lparr>status = ''429 Too Many Requests'',
        headers = [(''Content-Type'', ''application/json'')],
        body = [''{"message":"You have made too many calls to the service"}'']\<rparr> \<and>
   levels_after (voicetext (addon_request ''192.0.2.7'') (Raises []) 86401
            (serve crowded_day limit_levels)) = serve crowded_day limit_levels\<close>
proof -
  have v: "validated (addon_request ''192.0.2.9'')" and v7: "validated (addon_request ''192.0.2.7'')"
    by (simp_all add: validated_addon_request)
  have i: "1 < length (serve crowded_day limit_levels)"
    by (simp add: serve_crowded_day full_day_def)
  have absent: "map_of (peer_entries 99) ''192.0.2.9'' = None"
    "map_of (peer_entries 99) ''192.0.2.7'' = None"
    by (rule map_of_peer_entries_None, simp)+
  then have a: "map_of (lookup (expire_level 86402 (serve crowded_day limit_levels ! 1)))
      (caller (addon_request ''192.0.2.9'')) = None"
    and a7: "map_of (lookup (expire_level 86401 (serve crowded_day limit_levels ! 1)))
      (caller (addon_request ''192.0.2.7'')) = None"
    by (simp_all add: serve_crowded_day full_day_def expire_lookup_def peer_entries_kept)
  have f: "max_total (serve crowded_day limit_levels ! 1) \<le>
      int (length (lookup (expire_level 86402 (serve crowded_day limit_levels ! 1))))"
    and f7: "max_total (serve crowded_day limit_levels ! 1) \<le>
      int (length (lookup (expire_level 86401 (serve crowded_day limit_levels ! 1))))"
    by (simp_all add: serve_crowded_day full_day_def expire_lookup_def peer_entries_kept)
  have under: "\<not> (\<exists>j < 1.
      (\<exists>entry. map_of (lookup (expire_level 86402 (serve crowded_day limit_levels ! j)))
                  (caller (addon_request ''192.0.2.9'')) = Some entry \<and>
                max_single (serve crowded_day limit_levels ! j) \<le> calls entry) \<and>
      (\<forall>k < j. check_level (caller (addon_request ''192.0.2.9''))
                  (expire_level 86402 (serve crowded_day limit_levels ! k)) = None))"
    by (simp add: serve_crowded_day full_day_def expire_lookup_def)
  have at_cap: "\<exists>j < 1.
      (\<exists>entry. map_of (lookup (expire_level 86401 (serve crowded_day limit_levels ! j)))
                  (caller (addon_request ''192.0.2.7'')) = Some entry \<and>
                max_single (serve crowded_day limit_levels ! j) \<le> calls entry) \<and>
      (\<forall>k < j. check_level (caller (addon_request ''192.0.2.7''))
                  (expire_level 86401 (serve crowded_day limit_levels ! k)) = None)"
    by (simp add: serve_crowded_day full_day_def expire_lookup_def)
  have s: "expire_levels 86402 (serve crowded_day limit_levels) = serve crowded_day limit_levels"
    "expire_levels 86401 (serve crowded_day limit_levels) = serve crowded_day limit_levels"
    by (simp_all add: serve_crowded_day full_day_def limiter_defs peer_entries_kept)
  have l: "length (lookup (serve crowded_day limit_levels ! 1)) = 100"
    by (simp add: serve_crowded_day full_day_def)
  have "reply (voicetext (addon_request ''192.0.2.9'') (Raises []) 86402
            (serve crowded_day limit_levels)) = over_capacity \<and>
        levels_after (voicetext (addon_request ''192.0.2.9'') (Raises []) 86402
            (serve crowded_day limit_levels)) = serve crowded_day limit_levels"
    using full_level_refuses_new_caller [OF v i a f, of "Raises []"] under
    unfolding s by blast
  moreover have "reply (voicetext (addon_request ''192.0.2.7'') (Raises []) 86401
            (serve crowded_day limit_levels)) = too_many_calls \<and>
        levels_after (voicetext (addon_request ''192.0.2.7'') (Raises []) 86401
            (serve crowded_day limit_levels)) = serve crowded_day limit_levels"
    using full_level_refuses_new_caller [OF v7 i a7 f7, of "Raises []"] at_cap
    unfolding s by blast
  ultimately show ?thesis
    unfolding over_capacity_literal too_many_calls_literal using l by blast
qed

text \<open>
  C2 as stated promises 503 for any address that is new to a full level. After the
  requests of \<open>crowded_day\<close>, served from the initial state, the second level holds 100
  entries, its cap, none of them expired and none for \<^verbatim>\<open>192.0.2.7\<close>, whose entry of the
  day before has just expired; the first level has counted 25 calls of that address
  within the last minute, and its check comes first: the request is answered with 429.
\<close>

theorem known_caller_at_full_level:
  \<open>length (lookup (serve crowded_day limit_levels ! 1)) = 100 \<and>
   max_total (serve crowded_day limit_levels ! 1) = 100 \<and>
   expire_levels 86401 (serve crowded_day limit_levels) = serve crowded_day limit_levels \<and>
   map_of (lookup (serve crowded_day limit_levels ! 1)) ''192.0.2.7'' = None \<and>
   reply (voicetext (addon_request ''192.0.2.7'') (Raises []) 86401
            (serve crowded_day limit_levels)) =
     \<lparr>status = ''429 Too Many Requests'',
        headers = [(''Content-Type'', ''application/json'')],
        body = [''{"message":"You have made too many calls to the service"}'']\<rparr>\<close>
proof -
  have v: "validated (addon_request ''192.0.2.7'')"
    by (simp add: validated_addon_request)
  have absent: "map_of (peer_entries 99) ''192.0.2.7'' = None"
    by (rule map_of_peer_entries_None) simp
  have s: "expire_levels 86401 full_day = full_day"
    by (simp add: full_day_def limiter_defs peer_entries_kept)
  have c: "check_levels (caller (addon_request ''192.0.2.7'')) (expire_levels 86401 full_day) =
      Some (TooManyCalls 25 ''192.0.2.7'' 60)"
    unfolding s by (simp add: full_day_def check_level_def)
  show ?thesis
    unfolding serve_crowded_day voicetext_denied [OF v c] s
    using absent
    by (simp add: full_day_def refuse_def CODE_429_def HEADERS_JSON_def MSG_TOO_MANY_def
          get_message_def)
qed

text \<open>
  C10. However many requests the process has served since it started with the empty
  lookups of \<^verbatim>\<open>_limit_levels\<close>, no level holds more entries than its cap of callers,
  and no address has two entries, so that the length of the lookup is the number of
  callers. The removal of expired entries only shortens a lookup, the update of a known
  caller keeps its length, and a caller is added only where the check found the length
  strictly below the cap (lemmas \<open>length_expire_lookup\<close>, \<open>length_bump\<close>,
  \<open>commit_level_bounded\<close>).
\<close>

theorem callers_never_exceed_cap:
  "\<forall>level \<in> set (serve reqs limit_levels).
     int (length (lookup level)) \<le> max_total level \<and> distinct (map fst (lookup level))"
proof -
  have "within_caps limit_levels" and "dict_like limit_levels"
    by (simp_all add: within_caps_def dict_like_def limit_levels_def)
  then have "within_caps (serve reqs limit_levels)" and "dict_like (serve reqs limit_levels)"
    by (simp_all add: serve_within_caps serve_dict_like)
  then show ?thesis
    by (simp add: within_caps_def dict_like_def list_all_iff)
qed

theorem callers_never_exceed_cap_witness:
  "length (lookup (serve six_callers limit_levels ! 0)) = 5 \<and>
   int (length (lookup (serve six_callers limit_levels ! 0))) \<le>
     max_total (serve six_callers limit_levels ! 0)"
  using callers_never_exceed_cap [of six_callers] by (simp add: serve_six_callers)

subsection \<open>Refused requests\<close>

text \<open>
  C3. When a request is refused by a level (status 503 or 429), the update of the call
  counts has not run for any level: the state left behind is the state after the
  removal of the expired entries. So on every level the entries are those of before
  that had not expired, each with the creation time and call count it had: no entry was
  added and no count was raised, also on the levels whose own check had passed; window
  and caps are untouched.
\<close>

theorem rejection_commits_nothing:
  assumes "status (reply (voicetext environ up now levels)) = CODE_503 \<or>
           status (reply (voicetext environ up now levels)) = CODE_429"
  shows "levels_after (voicetext environ up now levels) = expire_levels now levels \<and>
         length (levels_after (voicetext environ up now levels)) = length levels \<and>
         (\<forall>i < length levels.
            set (lookup (levels_after (voicetext environ up now levels) ! i)) =
              {(addr, entry). (addr, entry) \<in> set (lookup (levels ! i)) \<and>
                 \<not> created entry < now - within (levels ! i)} \<and>
            within (levels_after (voicetext environ up now levels) ! i) = within (levels ! i) \<and>
            max_single (levels_after (voicetext environ up now levels) ! i) =
              max_single (levels ! i) \<and>
            max_total (levels_after (voicetext environ up now levels) ! i) =
              max_total (levels ! i))"
proof -
  from refused_by_level [OF assms] obtain d where "validated environ"
    and "check_levels (caller environ) (expire_levels now levels) = Some d"
    by blast
  then have "levels_after (voicetext environ up now levels) = expire_levels now levels"
    by (simp add: voicetext_denied)
  then show ?thesis
    by (simp add: set_expire_lookup)
qed

theorem rejection_commits_nothing_witness:
  "status (reply (voicetext (addon_request ''192.0.2.7'') (Raises []) 1010 busy_levels)) = CODE_429 \<and>
   levels_after (voicetext (addon_request ''192.0.2.7'') (Raises []) 1010 busy_levels) =
     [\<lparr>within = 60, max_single = 25, max_total = 5,
        lookup = [(''192.0.2.7'', \<lparr>created = 1000, calls = 3\<rparr>)]\<rparr>,
      \<lparr>within = 86400, max_single = 500, max_total = 100,
        lookup = [(''192.0.2.7'', \<lparr>created = 500, calls = 500\<rparr>),
                  (''192.0.2.9'', \<lparr>created = 900, calls = 2\<rparr>)]\<rparr>]"
proof -
  have v: "validated (addon_request ''192.0.2.7'')"
    by (simp add: validated_addon_request)
  have c: "check_levels (caller (addon_request ''192.0.2.7'')) (expire_levels 1010 busy_levels) =
             Some (TooManyCalls 500 ''192.0.2.7'' 86400)"
    by (simp add: busy_levels_def expire_levels_def expire_level_def expire_lookup_def
          check_level_def)
  have s: "status (reply (voicetext (addon_request ''192.0.2.7'') (Raises []) 1010 busy_levels)) =
             CODE_429"
    by (simp add: voicetext_denied [OF v c] refuse_def)
  have "levels_after (voicetext (addon_request ''192.0.2.7'') (Raises []) 1010 busy_levels) =
          expire_levels 1010 busy_levels"
    using rejection_commits_nothing [OF disjI2, OF s] by (rule conjunct1)
  moreover have "expire_levels 1010 busy_levels =
     [\<lparr>within = 60, max_single = 25, max_total = 5,
        lookup = [(''192.0.2.7'', \<lparr>created = 1000, calls = 3\<rparr>)]\<rparr>,
      \<lparr>within = 86400, max_single = 500, max_total = 100,
        lookup = [(''192.0.2.7'', \<lparr>created = 500, calls = 500\<rparr>),
                  (''192.0.2.9'', \<lparr>created = 900, calls = 2\<rparr>)]\<rparr>]"
    by (simp add: busy_levels_def expire_levels_def expire_level_def expire_lookup_def)
  ultimately show ?thesis
    using s by simp
qed

subsection \<open>Expiry of entries\<close>




subsection \<open>The upstream call\<close>

text \<open>
  C5. A request that was validated and admitted by every level, for which the upstream
  call fails in any way (the call raises, as on a timeout or a connection error; the
  status is not 200; the content type does not start with \<^verbatim>\<open>audio/\<close>; reading the
  body raises), is answered with \<^verbatim>\<open>502 Bad Gateway\<close> and the one generic JSON message,
  whatever the failure was. The text of the failure goes to the error log and nowhere
  else, and the upstream service was called exactly once.
\<close>

theorem upstream_failure_is_502:
  assumes "validated environ"
    and "check_levels (caller environ) (expire_levels now levels) = None"
    and "upstream_fails up"
  shows "reply (voicetext environ up now levels) = upstream_unavailable \<and>
         last (emitted (voicetext environ up now levels)) =
           Error (''Relay failed -- '' @ failure_detail up) \<and>
         length (filter is_UrlOpen (emitted (voicetext environ up now levels))) = 1"
proof -
  obtain msg data where e: "emitted (voicetext environ up now levels) =
      Info msg # UrlOpen API_VOICETEXT_ENDPOINT data API_VOICETEXT_AUTH API_VOICETEXT_TIMEOUT #
      snd (relay up)"
    using voicetext_emitted [OF assms(1,2)] by blast
  show ?thesis
    using voicetext_admitted [OF assms(1,2), of up] relay_fails [OF assms(3)] e by simp
qed

theorem upstream_failure_is_502_witness:
  \<open>reply (voicetext (addon_request ''192.0.2.7'') (Raises ''timed out'') 1000 limit_levels) =
     \<lparr>status = ''502 Bad Gateway'', headers = [(''Content-Type'', ''application/json'')],
        body = [''{"message":"Cannot communicate with upstream service"}'']\<rparr> \<and>
   reply (voicetext (addon_request ''192.0.2.7'')
     (Responds 500 ''text/html'' (Inr ''Internal Server Error'')) 1000 limit_levels) =
     \<lparr>status = ''502 Bad Gateway'', headers = [(''Content-Type'', ''application/json'')],
        body = [''{"message":"Cannot communicate with upstream service"}'']\<rparr> \<and>
   reply (voicetext (addon_request ''192.0.2.7'')
     (Responds 200 ''application/json'' (Inr ''{"error":"bad key"}'')) 1000 limit_levels) =
     \<lparr>status = ''502 Bad Gateway'', headers = [(''Content-Type'', ''application/json'')],
        body = [''{"message":"Cannot communicate with upstream service"}'']\<rparr> \<and>
   last (emitted (voicetext (addon_request ''192.0.2.7'') (Raises ''timed out'') 1000
     limit_levels)) = Error ''Relay failed -- timed out''\<close>
proof -
  have v: "validated (addon_request ''192.0.2.7'')"
    by (simp add: validated_addon_request)
  have c: "check_levels (caller (addon_request ''192.0.2.7''))
             (expire_levels 1000 limit_levels) = None"
    by (simp add: sample_check_passes)
  have u: \<open>upstream_unavailable = \<lparr>status = ''502 Bad Gateway'', headers = [(''Content-Type'', ''application/json'')],
        body = [''{"message":"Cannot communicate with upstream service"}'']\<rparr>\<close>
    by (simp add: upstream_unavailable_def CODE_502_def HEADERS_JSON_def MSG_UPSTREAM_def get_message_def)
  show ?thesis
    using upstream_failure_is_502 [OF v c, of "Raises ''timed out''"]
      upstream_failure_is_502 [OF v c, of "Responds 500 ''text/html'' (Inr ''Internal Server Error'')"]
      upstream_failure_is_502 [OF v c, of \<open>Responds 200 ''application/json'' (Inr ''{"error":"bad key"}'')\<close>]
    by (simp add: u)
qed

text \<open>
  C6. A request that was validated and admitted by every level, for which the upstream
  service answers with status 200 and a content type that starts with \<^verbatim>\<open>audio/\<close>,
  is answered with \<^verbatim>\<open>200 OK\<close>, with the upstream's content type as the only header
  and with the bytes read from the upstream as the body, unchanged.
\<close>

theorem relays_audio_unmodified:
  assumes "validated environ"
    and "check_levels (caller environ) (expire_levels now levels) = None"
    and "prefix ''audio/'' mime"
  shows "reply (voicetext environ (Responds 200 mime (Inr payload)) now levels) =
           \<lparr>status = CODE_200, headers = [(''Content-Type'', mime)], body = [payload]\<rparr>"
  using voicetext_admitted [OF assms(1,2)] assms(3) by (simp add: relay_def)

theorem relays_audio_unmodified_witness:
  "reply (voicetext (addon_request ''192.0.2.7'')
            (Responds 200 ''audio/wav'' (Inr ''RIFF...'')) 1000 limit_levels) =
     \<lparr>status = ''200 OK'', headers = [(''Content-Type'', ''audio/wav'')],
        body = [''RIFF...'']\<rparr>"
proof -
  have v: "validated (addon_request ''192.0.2.7'')"
    by (simp add: validated_addon_request)
  have c: "check_levels (caller (addon_request ''192.0.2.7''))
             (expire_levels 1000 limit_levels) = None"
    by (simp add: limit_levels_def expire_levels_def expire_level_def expire_lookup_def
          check_level_def)
  have p: "prefix ''audio/'' ''audio/wav''" by simp
  show ?thesis
    using relays_audio_unmodified [OF v c p, of "''RIFF...''"] by (simp add: CODE_200_def)
qed

subsection \<open>The check of the query string\<close>

text \<open>
  C7, as amended. For a request that gets past the checks of address, user agent and
  method, and whose query string passes the other checks of lines 121--125, the query
  string is accepted exactly when it contains the text \<^verbatim>\<open>format=\<close> and does not contain
  the text \<^verbatim>\<open>format=wav\<close>; otherwise, and only then, the response is
  \<^verbatim>\<open>400 Bad Request\<close> with the unacceptable-request message.
\<close>

theorem format_check_is_by_substring:
  assumes "identified environ"
    and "environ ''QUERY_STRING'' = Some data"
    and "other_checks data"
  shows "(validated environ \<longleftrightarrow> sublist ''format='' data \<and> \<not> sublist ''format=wav'' data) \<and>
         (reply (voicetext environ up now levels) = unacceptable \<longleftrightarrow>
            \<not> (sublist ''format='' data \<and> \<not> sublist ''format=wav'' data))"
proof -
  have v: "validated environ \<longleftrightarrow> sublist ''format='' data \<and> \<not> sublist ''format=wav'' data"
    using assms by (auto simp: validated_def query_acceptable_def other_checks_def)
  have "reply (voicetext environ up now levels) = unacceptable" if "\<not> validated environ"
    using that assms(1,2)
    by (auto simp: voicetext_def validated_def identified_def caller_def refuse_def
          unacceptable_def Let_def)
  moreover have "reply (voicetext environ up now levels) \<noteq> unacceptable" if "validated environ"
    using reply_validated_not_unacceptable [OF that, of up now levels]
    by (auto simp: unacceptable_def)
  ultimately show ?thesis
    using v by blast
qed

text \<open>
  C7 as stated reads the check as one on the value of a \<^verbatim>\<open>format\<close> parameter. The
  query string \<open>wave_query\<close> passes the other checks and has the parameter
  \<^verbatim>\<open>format=wave\<close>, whose value is not \<^verbatim>\<open>wav\<close>, yet it is refused with 400: it contains
  the text \<^verbatim>\<open>format=wav\<close>.
\<close>

theorem wave_format_is_refused:
  "other_checks wave_query \<and> format_other_than_wav wave_query \<and>
   reply (voicetext (request_env ''192.0.2.7'' ''AwesomeTTS/1.0'' ''GET'' wave_query)
            (Responds 200 ''audio/ogg'' (Inr ''OggS'')) 1000 limit_levels) =
     \<lparr>status = ''400 Bad Request'', headers = [(''Content-Type'', ''application/json'')],
        body = MSG_UNACCEPTABLE\<rparr>"
  by (simp add: other_checks_wave_query)
     (simp add: wave_query_def format_other_than_wav_def voicetext_def environ_get_def
        AWESOMETTS_def query_acceptable_def sublist_code refuse_def CODE_400_def HEADERS_JSON_def)

theorem format_check_is_by_substring_witness:
  "validated (request_env ''192.0.2.7'' ''AwesomeTTS/1.0'' ''GET'' sample_query) \<and>
   reply (voicetext (request_env ''192.0.2.7'' ''AwesomeTTS/1.0'' ''GET'' sample_query)
            (Raises []) 1000 limit_levels) \<noteq> unacceptable \<and>
   \<not> validated (request_env ''192.0.2.7'' ''AwesomeTTS/1.0'' ''GET'' wave_query) \<and>
   reply (voicetext (request_env ''192.0.2.7'' ''AwesomeTTS/1.0'' ''GET'' wave_query)
            (Raises []) 1000 limit_levels) = unacceptable"
proof -
  have i: "identified (request_env ''192.0.2.7'' ''AwesomeTTS/1.0'' ''GET'' q)" for q
    by (simp add: identified_request_env)
  have o: "other_checks sample_query"
    by (simp add: other_checks_def sample_query_def sublist_code)
  have f: "sublist ''format='' sample_query" "\<not> sublist ''format=wav'' sample_query"
    "sublist ''format=wav'' wave_query"
    by (simp_all add: sample_query_def wave_query_def sublist_code)
  show ?thesis
    using format_check_is_by_substring
        [where environ = "request_env ''192.0.2.7'' ''AwesomeTTS/1.0'' ''GET'' sample_query"
           and data = sample_query and up = "Raises []" and now = 1000
           and levels = limit_levels, OF i _ o]
      format_check_is_by_substring
        [where environ = "request_env ''192.0.2.7'' ''AwesomeTTS/1.0'' ''GET'' wave_query"
           and data = wave_query and up = "Raises []" and now = 1000
           and levels = limit_levels, OF i _ other_checks_wave_query]
      f
    by simp
qed

text \<open>
  C8, as amended. A request whose query string lacks one of \<^verbatim>\<open>pitch=\<close>,
  \<^verbatim>\<open>speaker=\<close>, \<^verbatim>\<open>speed=\<close>, \<^verbatim>\<open>text=\<close>, \<^verbatim>\<open>volume=\<close>, or contains
  \<^verbatim>\<open>format=wav\<close>, never reaches the rate limiting: the state of every level is
  exactly what it was and the upstream service is not called. The response is
  \<^verbatim>\<open>400 Bad Request\<close> when the request gets past the checks of address, user agent and
  method, which come first: without an address or with another user agent it is
  \<^verbatim>\<open>403 Forbidden\<close>, with another method \<^verbatim>\<open>405 Method Not Allowed\<close>.
\<close>

theorem malformed_query_leaves_state:
  assumes "environ ''QUERY_STRING'' = Some data"
    and "\<not> sublist ''pitch='' data \<or> \<not> sublist ''speaker='' data \<or>
         \<not> sublist ''speed='' data \<or> \<not> sublist ''text='' data \<or>
         \<not> sublist ''volume='' data \<or> sublist ''format=wav'' data"
  shows "levels_after (voicetext environ up now levels) = levels \<and>
         filter is_UrlOpen (emitted (voicetext environ up now levels)) = [] \<and>
         reply (voicetext environ up now levels) =
           (if caller environ = [] \<or>
               \<not> prefix AWESOMETTS (environ_get environ ''HTTP_USER_AGENT'' [])
            then forbidden
            else if environ ''REQUEST_METHOD'' \<noteq> Some ''GET'' then method_not_allowed
            else unacceptable)"
proof -
  from assms have "\<not> query_acceptable data"
    by (auto simp: query_acceptable_def)
  with assms(1) show ?thesis
    by (simp add: voicetext_def caller_def refuse_def Let_def forbidden_def
          method_not_allowed_def unacceptable_def)
qed

theorem malformed_query_leaves_state_witness:
  "levels_after (voicetext
      (request_env ''192.0.2.7'' ''AwesomeTTS/1.0'' ''GET''
         ''format=wav&pitch=100&speaker=haruka&speed=100&text=hello&volume=100'')
      (Raises []) 1010 busy_levels) = busy_levels \<and>
   reply (voicetext
      (request_env ''192.0.2.7'' ''AwesomeTTS/1.0'' ''GET''
         ''format=wav&pitch=100&speaker=haruka&speed=100&text=hello&volume=100'')
      (Raises []) 1010 busy_levels) = unacceptable"
proof -
  have q: "request_env ''192.0.2.7'' ''AwesomeTTS/1.0'' ''GET''
         ''format=wav&pitch=100&speaker=haruka&speed=100&text=hello&volume=100'' ''QUERY_STRING'' =
       Some ''format=wav&pitch=100&speaker=haruka&speed=100&text=hello&volume=100''"
    by simp
  have w: "sublist ''format=wav''
             ''format=wav&pitch=100&speaker=haruka&speed=100&text=hello&volume=100''"
    by (simp add: sublist_code)
  show ?thesis
    using malformed_query_leaves_state
      [of "request_env ''192.0.2.7'' ''AwesomeTTS/1.0'' ''GET''
            ''format=wav&pitch=100&speaker=haruka&speed=100&text=hello&volume=100''"
          "''format=wav&pitch=100&speaker=haruka&speed=100&text=hello&volume=100''"
          "Raises []" 1010 busy_levels] q w
    by (simp add: environ_get_def AWESOMETTS_def)
qed

text \<open>
  C8 as stated promises status 400 for every such request; a \<^verbatim>\<open>POST\<close> request whose
  query string lacks \<^verbatim>\<open>pitch=\<close> is answered with 405.
\<close>

theorem malformed_query_other_status:
  "\<not> sublist ''pitch='' ''format=ogg&speaker=haruka&speed=100&text=hello&volume=100'' \<and>
   status (reply (voicetext
      (request_env ''192.0.2.7'' ''AwesomeTTS/1.0'' ''POST''
         ''format=ogg&speaker=haruka&speed=100&text=hello&volume=100'')
      (Raises []) 1010 limit_levels)) = ''405 Method Not Allowed''"
  by (simp add: sublist_code voicetext_def environ_get_def AWESOMETTS_def refuse_def CODE_405_def)

end
